theory Spec2Isabelle
  imports Main "HOL-Library.Word" "HOL-Library.Multiset"
begin

section \<open>The SkyDNS request handler (server.go)\<close>

text \<open>
  A shallow embedding of \<^verbatim>\<open>src/server.go\<close>. Go strings are byte strings
  (\<open>string\<close>), \<^verbatim>\<open>uint16\<close> and \<^verbatim>\<open>uint32\<close> are words, slices are lists and a
  \<^verbatim>\<open>nil\<close> slice is the empty list. A panic and a returned \<^verbatim>\<open>error\<close> are values
  of the type \<open>error\<close>. What a handler does to the outside (the message it writes,
  the calls to the store, the exchanges with upstream servers) is returned as a
  record of logs. Logging (\<^verbatim>\<open>log.Printf\<close>) is left out, except where evaluating its
  arguments can panic.
\<close>

subsection \<open>Strings (package strings)\<close>

definition HasSuffix :: "string \<Rightarrow> string \<Rightarrow> bool" where
  "HasSuffix s suffix =
     (length suffix \<le> length s \<and> drop (length s - length suffix) s = suffix)"

fun Join :: "string list \<Rightarrow> string \<Rightarrow> string" where
  "Join [] sep = []"
| "Join [x] sep = x"
| "Join (x # y # ys) sep = x @ sep @ Join (y # ys) sep"

subsection \<open>Addresses (package net)\<close>

text \<open>
  \<^verbatim>\<open>net.IP\<close> is a byte slice: 4 bytes, 16 bytes, or \<^verbatim>\<open>nil\<close>. \<open>To4\<close> and
  \<open>To16\<close> are the two conversions of package net.
\<close>

type_synonym uint16 = "16 word"
type_synonym uint32 = "32 word"
type_synonym IP = "8 word list"

definition IPv4 :: "8 word \<Rightarrow> 8 word \<Rightarrow> 8 word \<Rightarrow> 8 word \<Rightarrow> IP" where
  "IPv4 a b c d = [0, 0, 0, 0, 0, 0, 0, 0, 0, 0, 0xff, 0xff, a, b, c, d]"

definition To4 :: "IP \<Rightarrow> IP" where
  "To4 ip =
     (if length ip = 4 then ip
      else if length ip = 16 \<and> take 10 ip = replicate 10 0 \<and> ip ! 10 = 0xff \<and> ip ! 11 = 0xff
      then drop 12 ip
      else [])"

definition To16 :: "IP \<Rightarrow> IP" where
  "To16 ip =
     (if length ip = 4 then IPv4 (ip ! 0) (ip ! 1) (ip ! 2) (ip ! 3)
      else if length ip = 16 then ip
      else [])"

subsection \<open>Messages and resource records (package dns)\<close>

definition TypeA :: uint16 where "TypeA = 1"
definition TypeSOA :: uint16 where "TypeSOA = 6"
definition TypeAAAA :: uint16 where "TypeAAAA = 28"
definition TypeSRV :: uint16 where "TypeSRV = 33"
definition TypeDNSKEY :: uint16 where "TypeDNSKEY = 48"
definition TypeANY :: uint16 where "TypeANY = 255"
definition ClassINET :: uint16 where "ClassINET = 1"

definition RcodeSuccess :: int where "RcodeSuccess = 0"
definition RcodeServerFailure :: int where "RcodeServerFailure = 2"
definition RcodeNameError :: int where "RcodeNameError = 3"

record Question =
  Name :: string
  Qtype :: uint16
  Qclass :: uint16

record RR_Header =
  Hdr_Name :: string
  Rrtype :: uint16
  Class :: uint16
  Hdr_Ttl :: uint32

text \<open>
  The record types the handler builds or inspects. The fields of \<open>RR_SOA\<close> after the
  header are, in this order, Ns, Mbox, Serial, Refresh, Retry, Expire, Minttl; those
  of \<open>RR_OPT\<close> are the advertised UDP size and the DO bit. \<open>RR_Other\<close> stands
  for every other record (NSEC, RRSIG, ...).
\<close>

datatype RR =
    RR_A RR_Header IP
  | RR_AAAA RR_Header IP
  | RR_SOA RR_Header string string uint32 uint32 uint32 uint32 uint32
  | RR_DNSKEY RR_Header string
  | RR_OPT uint16 bool
  | RR_Other string

record Msg =
  MsgId :: uint16
  Response :: bool
  Authoritative :: bool
  RecursionDesired :: bool
  RecursionAvailable :: bool
  Rcode :: int
  Questions :: "Question list"
  Answer :: "RR list"
  Ns :: "RR list"
  Extra :: "RR list"

text \<open>\<^verbatim>\<open>new(dns.Msg)\<close>: every field has its zero value.\<close>

definition new_Msg :: Msg where
  "new_Msg = \<lparr>MsgId = 0, Response = False, Authoritative = False, RecursionDesired = False,
     RecursionAvailable = False, Rcode = 0, Questions = [], Answer = [], Ns = [], Extra = []\<rparr>"

text \<open>
  \<^verbatim>\<open>Msg.SetReply\<close>, \<^verbatim>\<open>Msg.SetRcode\<close> and \<^verbatim>\<open>Msg.IsEdns0\<close> are methods of the
  DNS library. \<open>SetReply\<close> copies the ID, the RD bit and the first question of the
  request, marks the message as a response and sets the rcode to success; it leaves the
  other header bits and the three record sections alone. \<open>SetRcode\<close> is
  \<open>SetReply\<close> followed by setting the rcode. \<open>IsEdns0\<close> returns the OPT record
  of the additional section, if there is one.
\<close>

definition SetReply :: "Msg \<Rightarrow> Msg \<Rightarrow> Msg" where
  "SetReply m request =
     m\<lparr>MsgId := MsgId request, RecursionDesired := RecursionDesired request,
       Response := True, Rcode := RcodeSuccess,
       Questions := (case Questions request of [] \<Rightarrow> Questions m | q # _ \<Rightarrow> [q])\<rparr>"

definition SetRcode :: "Msg \<Rightarrow> Msg \<Rightarrow> int \<Rightarrow> Msg" where
  "SetRcode m request rcode = (SetReply m request)\<lparr>Rcode := rcode\<rparr>"

fun find_OPT :: "RR list \<Rightarrow> (uint16 \<times> bool) option" where
  "find_OPT [] = None"
| "find_OPT (RR_OPT sz dobit # rs) = Some (sz, dobit)"
| "find_OPT (_ # rs) = find_OPT rs"

definition IsEdns0 :: "Msg \<Rightarrow> (uint16 \<times> bool) option" where
  "IsEdns0 m = find_OPT (Extra m)"

subsection \<open>The store (package etcd)\<close>

datatype Node = Node (Key: string) (Value: string) (Dir: bool) (TTL: int) (Nodes: "Node list")

datatype store_call = Call_Get string | Call_GetCluster

subsection \<open>Errors\<close>

datatype error = Panic string | StoreError string

subsection \<open>The server and its environment\<close>

text \<open>The fields of \<^verbatim>\<open>server\<close> that the handlers read.\<close>

record server =
  nameservers :: "string list"
  domain :: string
  PubKey :: "RR option"
  RoundRobin :: bool
  Ttl :: uint32
  MinTtl :: uint32

text \<open>
  Everything the handlers call that is not defined in \<^verbatim>\<open>server.go\<close> and is not
  one of the small functions above is a parameter, collected in the record \<open>env\<close>:
  \<^item> library parsers: \<^verbatim>\<open>strings.ToLower\<close>, \<^verbatim>\<open>dns.SplitDomainName\<close>,
    \<^verbatim>\<open>url.Parse\<close> (the \<^verbatim>\<open>Host\<close> of the parsed URL, \<open>None\<close> for an error),
    \<^verbatim>\<open>net.SplitHostPort\<close> (\<open>None\<close> for an error), \<^verbatim>\<open>net.ParseIP\<close>;
  \<^item> \<^verbatim>\<open>dns.Id()\<close>, the ID generator of the DNS library: it takes no argument and
    returns a fresh 16-bit value at every call; \<open>dns_Id e k\<close> is what its \<open>k\<close>-th
    call (counted from 0) within one AddressRecords call returns;
  \<^item> \<^verbatim>\<open>time.Now()\<close>, in seconds since the epoch;
  \<^item> the store client: \<^verbatim>\<open>Get(path, false, true)\<close> (an error or the node of the
    response) and \<^verbatim>\<open>GetCluster()\<close>, both read from one snapshot of the store;
  \<^item> the upstream servers: \<open>Exchange e n network req addr\<close> is the result of
    \<^verbatim>\<open>c.Exchange(req, addr)\<close> when \<open>n\<close> exchanges were made before it;
  \<^item> the methods \<^verbatim>\<open>s.nsec\<close> and \<^verbatim>\<open>s.sign\<close> of the server, which are defined
    in another file.
\<close>

record env =
  ToLower :: "string \<Rightarrow> string"
  SplitDomainName :: "string \<Rightarrow> string list"
  url_Parse :: "string \<Rightarrow> string option"
  SplitHostPort :: "string \<Rightarrow> (string \<times> string) option"
  ParseIP :: "string \<Rightarrow> IP"
  dns_Id :: "nat \<Rightarrow> uint16"
  Now :: int
  Get :: "string \<Rightarrow> string + Node"
  GetCluster :: "string list"
  Exchange :: "nat \<Rightarrow> string \<Rightarrow> Msg \<Rightarrow> string \<Rightarrow> string + Msg"
  nsec :: "Msg \<Rightarrow> Msg"
  sign :: "Msg \<Rightarrow> uint16 \<Rightarrow> Msg"

text \<open>What a handler did: the messages written with \<^verbatim>\<open>w.WriteMsg\<close>, the calls to
  the store, the addresses of the upstream servers it exchanged the request with, and
  the panic it ended with, if any.\<close>

record outcome =
  wrote :: "Msg list"
  store_calls :: "store_call list"
  exchanges :: "string list"
  panicked :: "string option"

subsection \<open>questionToPath (lines 456-463)\<close>

text \<open>The loop that reverses the label slice in place, with the Go \<^verbatim>\<open>int\<close> indices
  \<open>i\<close> and \<open>j\<close> (\<open>j\<close> starts at \<open>-1\<close> for an empty slice).\<close>

function reverseLoop :: "string list \<Rightarrow> int \<Rightarrow> int \<Rightarrow> string list" where
  "reverseLoop l i j =
     (if i < j then reverseLoop (l[nat i := l ! nat j, nat j := l ! nat i]) (i + 1) (j - 1)
      else l)"
  by pat_completeness auto
termination
  by (relation "measure (\<lambda>(l, i, j). nat (j - i))") auto

declare reverseLoop.simps [simp del]

definition questionToPath :: "env \<Rightarrow> string \<Rightarrow> string" where
  "questionToPath e s =
     (let l = SplitDomainName e s;
          l = reverseLoop l 0 (int (length l) - 1)
      in Join l ''/'')"

subsection \<open>SOA (lines 441-451)\<close>

text \<open>\<^verbatim>\<open>time.Now().Truncate(time.Hour).Unix()\<close> for a clock that reads \<open>t\<close>
  seconds since the epoch; the conversion to \<^verbatim>\<open>uint32\<close> keeps the low 32 bits.\<close>

definition Truncate_Hour :: "int \<Rightarrow> int" where
  "Truncate_Hour t = t - t mod 3600"

definition SOA :: "env \<Rightarrow> server \<Rightarrow> RR" where
  "SOA e s =
     RR_SOA \<lparr>Hdr_Name = domain s, Rrtype = TypeSOA, Class = ClassINET, Hdr_Ttl = Ttl s\<rparr>
       (''master.'' @ domain s)
       (''hostmaster.'' @ domain s)
       (word_of_int (Truncate_Hour (Now e)))
       28800
       7200
       604800
       (MinTtl s)"

subsection \<open>loopAddressNodes (lines 308-331)\<close>

fun loopAddressNodes :: "env \<Rightarrow> Node list \<Rightarrow> string \<Rightarrow> uint16 \<Rightarrow> RR list" where
  "loopAddressNodes e [] q t = []"
| "loopAddressNodes e (Node key val dir ttl nodes # ns) q t =
     (if dir then loopAddressNodes e nodes q t
      else if HasSuffix key ''/A'' \<and> t = TypeA then
        [RR_A \<lparr>Hdr_Name = q, Rrtype = t, Class = ClassINET, Hdr_Ttl = word_of_int ttl\<rparr>
           (To4 (ParseIP e val))]
      else if HasSuffix key ''/AAAA'' \<and> t = TypeAAAA then
        [RR_AAAA \<lparr>Hdr_Name = q, Rrtype = t, Class = ClassINET, Hdr_Ttl = word_of_int ttl\<rparr>
           (To16 (ParseIP e val))]
      else [])
     @ loopAddressNodes e ns q t"

subsection \<open>AddressRecords (lines 234-304)\<close>

text \<open>
  The round-robin block (lines 284-302). The \<^verbatim>\<open>for\<close> loop of the default case
  evaluates its condition before every iteration, and the condition calls
  \<^verbatim>\<open>dns.Id()\<close>; the body calls it twice more. \<open>rrLoop ids l j k records\<close> is
  the loop at counter \<open>j\<close>, when \<open>k\<close> calls of the generator \<open>ids\<close> were made.
\<close>

function rrLoop :: "(nat \<Rightarrow> uint16) \<Rightarrow> nat \<Rightarrow> nat \<Rightarrow> nat \<Rightarrow> 'a list \<Rightarrow> 'a list" where
  "rrLoop ids l j k records =
     (if j < l * (unat (ids k) mod 4 + 1) then
        (let q = unat (ids (k + 1)) mod l;
             p = unat (ids (k + 2)) mod l;
             p = (if q = p then (p + 1) mod l else p)
         in rrLoop ids l (j + 1) (k + 3) (records[q := records ! p, p := records ! q]))
      else records)"
  by pat_completeness auto
termination
proof (relation "measure (\<lambda>(ids, l, j, k, records). 4 * l - j)")
  show "wf (measure (\<lambda>(ids, l, j, k, records). 4 * l - j))"
    by simp
next
  fix ids :: "nat \<Rightarrow> uint16" and l j k :: nat and records :: "'a list" and q p pa
  assume less: "j < l * (unat (ids k) mod 4 + 1)"
  have "unat (ids k) mod 4 + 1 \<le> 4"
    by (simp add: Suc_le_eq)
  then have "l * (unat (ids k) mod 4 + 1) \<le> l * 4"
    by (rule mult_le_mono2)
  with less have "j < l * 4"
    by (rule less_le_trans)
  then show "((ids, l, j + 1, k + 3, records[q := records ! pa, pa := records ! q]),
              (ids, l, j, k, records)) \<in> measure (\<lambda>(ids, l, j, k, records). 4 * l - j)"
    by simp
qed

declare rrLoop.simps [simp del]

definition roundRobin :: "(nat \<Rightarrow> uint16) \<Rightarrow> 'a list \<Rightarrow> 'a list" where
  "roundRobin ids records =
     (let l = length records in
      if l = 1 then records
      else if l = 2 then
        (if ids 0 mod 2 = 0 then records[0 := records ! 1, 1 := records ! 0] else records)
      else rrLoop ids l 0 0 records)"

text \<open>
  The exchanges that the loop of lines 293-300 makes, in order: the pair of positions
  \<open>(q, p)\<close> of line 299 for every iteration. The recursion is that of
  \<open>rrLoop\<close>, with the same calls of the generator.
\<close>

function rrSwaps :: "(nat \<Rightarrow> uint16) \<Rightarrow> nat \<Rightarrow> nat \<Rightarrow> nat \<Rightarrow> (nat \<times> nat) list" where
  "rrSwaps ids l j k =
     (if j < l * (unat (ids k) mod 4 + 1) then
        (let q = unat (ids (k + 1)) mod l;
             p = unat (ids (k + 2)) mod l;
             p = (if q = p then (p + 1) mod l else p)
         in (q, p) # rrSwaps ids l (j + 1) (k + 3))
      else [])"
  by pat_completeness auto
termination
proof (relation "measure (\<lambda>(ids, l, j, k). 4 * l - j)")
  show "wf (measure (\<lambda>(ids, l, j, k). 4 * l - j))"
    by simp
next
  fix ids :: "nat \<Rightarrow> uint16" and l j k :: nat
  assume less: "j < l * (unat (ids k) mod 4 + 1)"
  have "unat (ids k) mod 4 + 1 \<le> 4"
    by (simp add: Suc_le_eq)
  then have "l * (unat (ids k) mod 4 + 1) \<le> l * 4"
    by (rule mult_le_mono2)
  with less have "j < l * 4"
    by (rule less_le_trans)
  then show "((ids, l, j + 1, k + 3), (ids, l, j, k)) \<in> measure (\<lambda>(ids, l, j, k). 4 * l - j)"
    by simp
qed

declare rrSwaps.simps [simp del]

text \<open>The loop over the cluster members (lines 237-256), with the records appended so
  far.\<close>

fun clusterLoop :: "env \<Rightarrow> server \<Rightarrow> Question \<Rightarrow> string list \<Rightarrow> RR list \<Rightarrow> error + RR list" where
  "clusterLoop e s q [] records = Inr records"
| "clusterLoop e s q (m # ms) records =
     (case url_Parse e m of
        None \<Rightarrow> clusterLoop e s q ms records
      | Some host \<Rightarrow>
          (case SplitHostPort e host of
             None \<Rightarrow> clusterLoop e s q ms records
           | Some (h, port) \<Rightarrow>
               (let ip = ParseIP e h in
                if To4 ip \<noteq> [] \<and> Qtype q = TypeA then
                  clusterLoop e s q ms (records @
                    [RR_A \<lparr>Hdr_Name = Name q, Rrtype = TypeA, Class = ClassINET, Hdr_Ttl = Ttl s\<rparr>
                       (To4 ip)])
                else if To16 ip \<noteq> [] then
                  clusterLoop e s q ms (records @
                    [RR_AAAA \<lparr>Hdr_Name = Name q, Rrtype = TypeAAAA, Class = ClassINET, Hdr_Ttl = Ttl s\<rparr>
                       (To16 ip)])
                else Inl (Panic ''skydns: internal error''))))"

definition AddressRecords :: "env \<Rightarrow> server \<Rightarrow> Question \<Rightarrow> (error + RR list) \<times> store_call list" where
  "AddressRecords e s q =
     (let name = ToLower e (Name q) in
      if name = ''master.'' @ domain s \<or> name = domain s then
        (clusterLoop e s q (GetCluster e) [], [Call_GetCluster])
      else
        (let path = questionToPath e name in
         case Get e path of
           Inl err \<Rightarrow> (Inl (StoreError err), [Call_Get path])
         | Inr node \<Rightarrow>
             (let records =
                (if \<not> Dir node then
                   (if HasSuffix (Key node) ''/A'' \<and> Qtype q = TypeA then
                      [RR_A \<lparr>Hdr_Name = Name q, Rrtype = Qtype q, Class = ClassINET,
                              Hdr_Ttl = word_of_int (TTL node)\<rparr>
                         (To4 (ParseIP e (Value node)))]
                    else [])
                   @
                   (if HasSuffix (Key node) ''/AAAA'' \<and> Qtype q = TypeAAAA then
                      [RR_AAAA \<lparr>Hdr_Name = Name q, Rrtype = Qtype q, Class = ClassINET,
                                 Hdr_Ttl = word_of_int (TTL node)\<rparr>
                         (To16 (ParseIP e (Value node)))]
                    else [])
                 else loopAddressNodes e (Nodes node) (Name q) (Qtype q));
                  records = (if RoundRobin s then roundRobin (dns_Id e) records else records)
              in (Inr records, [Call_Get path]))))"

subsection \<open>SRVRecords (lines 335-340)\<close>

text \<open>The result is the triple \<^verbatim>\<open>(nil, nil, err)\<close>; \<open>None\<close> is the \<^verbatim>\<open>nil\<close>
  error.\<close>

definition SRVRecords ::
    "env \<Rightarrow> Question \<Rightarrow> (RR list \<times> RR list \<times> string option) \<times> store_call list" where
  "SRVRecords e q =
     (let name = ToLower e (Name q);
          path = questionToPath e name
      in (([], [], (case Get e path of Inl err \<Rightarrow> Some err | Inr _ \<Rightarrow> None)), [Call_Get path]))"

subsection \<open>ServeDNSForward (lines 190-232)\<close>

text \<open>
  The code from the label \<^verbatim>\<open>Redo\<close> on. \<open>tried\<close> lists the servers the request
  was exchanged with so far. After a successful exchange the log line reads
  \<^verbatim>\<open>req.Question[0]\<close>, which panics for a request without a question.
\<close>

function Redo :: "env \<Rightarrow> server \<Rightarrow> string \<Rightarrow> Msg \<Rightarrow> nat \<Rightarrow> nat \<Rightarrow> string list \<Rightarrow> outcome" where
  "Redo e s network req nsid try tried =
     (let addr = nameservers s ! nsid in
      case Exchange e (length tried) network req addr of
        Inr r \<Rightarrow>
          (case Questions req of
             [] \<Rightarrow> \<lparr>wrote = [], store_calls = [], exchanges = tried @ [addr],
                     panicked = Some ''index out of range''\<rparr>
           | _ # _ \<Rightarrow> \<lparr>wrote = [r], store_calls = [], exchanges = tried @ [addr], panicked = None\<rparr>)
      | Inl err \<Rightarrow>
          if try < length (nameservers s) then
            Redo e s network req ((nsid + 1) mod length (nameservers s)) (try + 1) (tried @ [addr])
          else
            (let m = SetReply new_Msg req;
                 m = SetRcode m req RcodeServerFailure
             in \<lparr>wrote = [m], store_calls = [], exchanges = tried @ [addr], panicked = None\<rparr>))"
  by pat_completeness auto
termination
  by (relation "measure (\<lambda>(e, s, network, req, nsid, try, tried). length (nameservers s) - try)")
    auto

declare Redo.simps [simp del]

definition ServeDNSForward :: "env \<Rightarrow> server \<Rightarrow> bool \<Rightarrow> Msg \<Rightarrow> outcome" where
  "ServeDNSForward e s tcp req =
     (if length (nameservers s) = 0 then
        (let m = SetReply new_Msg req;
             m = SetRcode m req RcodeServerFailure;
             m = m\<lparr>Authoritative := False\<rparr>;
             m = m\<lparr>RecursionAvailable := True\<rparr>
         in \<lparr>wrote = [m], store_calls = [], exchanges = [], panicked = None\<rparr>)
      else
        (let network = (if tcp then ''tcp'' else ''udp'');
             nsid = unat (MsgId req) mod length (nameservers s)
         in Redo e s network req nsid 0 []))"

subsection \<open>ServeDNS (lines 121-187)\<close>

text \<open>The deferred function (lines 140-149) up to the call of \<^verbatim>\<open>w.WriteMsg\<close>: the
  message it writes.\<close>

definition deferred :: "env \<Rightarrow> server \<Rightarrow> Msg \<Rightarrow> Msg \<Rightarrow> Msg" where
  "deferred e s req m =
     (case PubKey s of
        None \<Rightarrow> m
      | Some key \<Rightarrow>
          (case IsEdns0 req of
             None \<Rightarrow> m
           | Some (sz, dobit) \<Rightarrow> if dobit then sign e (nsec e m) sz else m))"

text \<open>
  Lines 172-186: the code after the address records were appended. The result is the
  message as it stands when the function returns, and the store calls made.
\<close>

definition serviceRecords :: "env \<Rightarrow> server \<Rightarrow> Msg \<Rightarrow> Question \<Rightarrow> Msg \<Rightarrow> Msg \<times> store_call list" where
  "serviceRecords e s req q m =
     (case SRVRecords e q of
        ((records, extra, err), calls) \<Rightarrow>
          if err \<noteq> None \<and> length (Answer m) = 0 then
            (let m = SetRcode m req RcodeNameError;
                 m = m\<lparr>Ns := [SOA e s]\<rparr>
             in (m, calls))
          else
            (let m = (if Qtype q = TypeANY \<or> Qtype q = TypeSRV
                      then m\<lparr>Answer := Answer m @ records, Extra := Extra m @ extra\<rparr>
                      else m);
                 m = (if length (Answer m) = 0 then m\<lparr>Ns := [SOA e s]\<rparr> else m)
             in (m, calls)))"

text \<open>
  Lines 151-186: the body of the handler after the \<^verbatim>\<open>defer\<close> statement. The result
  is the message as it stands when the body returns or panics, the store calls made,
  and the panic, if any.
\<close>

definition authoritative ::
    "env \<Rightarrow> server \<Rightarrow> Msg \<Rightarrow> Question \<Rightarrow> string \<Rightarrow> Msg \<Rightarrow> Msg \<times> store_call list \<times> string option" where
  "authoritative e s req q name m =
     (if name = domain s \<and> Qtype q = TypeDNSKEY \<and> PubKey s \<noteq> None then
        (m\<lparr>Answer := Answer m @ [the (PubKey s)]\<rparr>, [], None)
      else if name = domain s \<and> Qtype q = TypeSOA then
        (m\<lparr>Answer := [SOA e s]\<rparr>, [], None)
      else if Qtype q = TypeA \<or> Qtype q = TypeAAAA then
        (case AddressRecords e s q of
           (Inl (Panic msg), calls) \<Rightarrow> (m, calls, Some msg)
         | (Inl (StoreError err), calls) \<Rightarrow>
             (let m = SetRcode m req RcodeNameError;
                  m = m\<lparr>Ns := [SOA e s]\<rparr>
              in (m, calls, None))
         | (Inr records, calls) \<Rightarrow>
             (case serviceRecords e s req q (m\<lparr>Answer := Answer m @ records\<rparr>) of
                (m, calls') \<Rightarrow> (m, calls @ calls', None)))
      else
        (case serviceRecords e s req q m of (m, calls) \<Rightarrow> (m, calls, None)))"

definition ServeDNS :: "env \<Rightarrow> server \<Rightarrow> bool \<Rightarrow> Msg \<Rightarrow> outcome" where
  "ServeDNS e s tcp req =
     (case Questions req of
        [] \<Rightarrow> \<lparr>wrote = [], store_calls = [], exchanges = [], panicked = Some ''index out of range''\<rparr>
      | q # _ \<Rightarrow>
          (let name = ToLower e (Name q) in
           if \<not> HasSuffix name (domain s) then ServeDNSForward e s tcp req
           else
             (let m = SetReply new_Msg req;
                  m = m\<lparr>Authoritative := True\<rparr>;
                  m = m\<lparr>RecursionAvailable := True\<rparr>;
                  m = m\<lparr>Answer := []\<rparr>
              in case authoritative e s req q name m of
                   (m, calls, p) \<Rightarrow>
                     \<lparr>wrote = [deferred e s req m], store_calls = calls, exchanges = [],
                      panicked = p\<rparr>)))"

subsection \<open>The shuffle as the specification describes it\<close>

text \<open>
  The specification's Answer Shuffler, from its words: a function of one ID value. Zero
  or one record: no change. Two records: exchanged when the ID is even. Three or more:
  \<open>length * (id mod 4 + 1)\<close> exchanges, each of the position \<open>id mod length\<close>
  with the position after it (wrapping).
\<close>

definition exchange :: "nat \<Rightarrow> nat \<Rightarrow> 'a list \<Rightarrow> 'a list" where
  "exchange q p r = r[q := r ! p, p := r ! q]"

definition spec_shuffle :: "uint16 \<Rightarrow> 'a list \<Rightarrow> 'a list" where
  "spec_shuffle qid records =
     (let l = length records in
      if l \<le> 1 then records
      else if l = 2 then (if even (unat qid) then exchange 0 1 records else records)
      else (exchange (unat qid mod l) ((unat qid mod l + 1) mod l) ^^ (l * (unat qid mod 4 + 1)))
             records)"

text \<open>
  The calls of the generator, by their number: the test before the \<open>i\<close>-th
  iteration (counted from 0) reads call \<open>3 * i\<close>, and the iteration reads the
  two positions from the calls \<open>3 * i + 1\<close> and \<open>3 * i + 2\<close>.
  \<open>exchanges_of\<close> applies a list of exchanges in order.
\<close>

definition loop_test :: "(nat \<Rightarrow> uint16) \<Rightarrow> nat \<Rightarrow> nat \<Rightarrow> bool" where
  "loop_test ids l i = (i < l * (unat (ids (3 * i)) mod 4 + 1))"

definition swap_at :: "(nat \<Rightarrow> uint16) \<Rightarrow> nat \<Rightarrow> nat \<Rightarrow> nat \<times> nat" where
  "swap_at ids l i =
     (let q = unat (ids (3 * i + 1)) mod l;
          p = unat (ids (3 * i + 2)) mod l
      in (q, if q = p then (p + 1) mod l else p))"

definition exchanges_of :: "(nat \<times> nat) list \<Rightarrow> 'a list \<Rightarrow> 'a list" where
  "exchanges_of swaps records = foldl (\<lambda>r (q, p). exchange q p r) records swaps"

subsection \<open>Path segments\<close>

text \<open>\<^verbatim>\<open>strings.Split\<close> for a separator of one byte: the segments of a path, and the
  labels of a name in the examples.\<close>

fun Split :: "string \<Rightarrow> char \<Rightarrow> string list" where
  "Split [] sep = [[]]"
| "Split (c # cs) sep =
     (if c = sep then [] # Split cs sep
      else (case Split cs sep of [] \<Rightarrow> [[c]] | w # ws \<Rightarrow> (c # w) # ws))"

subsection \<open>The serial of an SOA record\<close>

fun SOA_Serial :: "RR \<Rightarrow> uint32" where
  "SOA_Serial (RR_SOA hdr ns mbox serial refresh retry expire minttl) = serial"
| "SOA_Serial _ = 0"

subsection \<open>An example environment\<close>

text \<open>
  A concrete environment for the examples: lower-casing of ASCII letters, names split at
  every dot, a cluster of two members, an empty store, upstream servers that do not
  answer, a signer that leaves the message alone.
\<close>

definition ascii_ToLower :: "string \<Rightarrow> string" where
  "ascii_ToLower s =
     map (\<lambda>c. case map_of (zip ''ABCDEFGHIJKLMNOPQRSTUVWXYZ'' ''abcdefghijklmnopqrstuvwxyz'') c of
                None \<Rightarrow> c
              | Some l \<Rightarrow> l) s"

definition dot_SplitDomainName :: "string \<Rightarrow> string list" where
  "dot_SplitDomainName s =
     (if s = [] \<or> s = ''.'' then []
      else Split (if last s = CHR ''.'' then butlast s else s) (CHR ''.''))"

definition example_env :: env where
  "example_env =
     \<lparr>ToLower = ascii_ToLower,
      SplitDomainName = dot_SplitDomainName,
      url_Parse = map_of [(''http://10.0.0.1:4001'', ''10.0.0.1:4001''),
                          (''http://[2001:db8::1]:4001'', ''[2001:db8::1]:4001'')],
      SplitHostPort = map_of [(''10.0.0.1:4001'', (''10.0.0.1'', ''4001'')),
                              (''[2001:db8::1]:4001'', (''2001:db8::1'', ''4001''))],
      ParseIP = (\<lambda>h. if h = ''10.0.0.1'' then IPv4 10 0 0 1
                     else if h = ''2001:db8::1''
                     then [0x20, 0x01, 0x0d, 0xb8, 0, 0, 0, 0, 0, 0, 0, 0, 0, 0, 0, 1]
                     else []),
      dns_Id = (\<lambda>k. 0),
      Now = 1700000000,
      Get = (\<lambda>path. Inl ''Key not found''),
      GetCluster = [''http://10.0.0.1:4001'', ''http://[2001:db8::1]:4001''],
      Exchange = (\<lambda>n network req addr. Inl ''i/o timeout''),
      nsec = (\<lambda>m. m),
      sign = (\<lambda>m sz. m)\<rparr>"

definition example_server :: server where
  "example_server =
     \<lparr>nameservers = [''8.8.8.8:53'', ''8.8.4.4:53''],
      domain = ''skydns.local.'',
      PubKey = None,
      RoundRobin = True,
      Ttl = 3600,
      MinTtl = 60\<rparr>"

definition example_query :: "uint16 \<Rightarrow> string \<Rightarrow> uint16 \<Rightarrow> Msg" where
  "example_query qid name t =
     new_Msg\<lparr>MsgId := qid, RecursionDesired := True,
       Questions := [\<lparr>Name = name, Qtype = t, Qclass = ClassINET\<rparr>]\<rparr>"

text \<open>A generator whose successive values differ: the values of its first thirteen
  calls, then zeros.\<close>

definition varying_ids :: "nat \<Rightarrow> uint16" where
  "varying_ids k = (if k < 13 then [0, 0, 1, 0, 1, 2, 0, 0, 1, 1, 0, 1, 0] ! k else 0)"

text \<open>
  A store for the examples: the directory \<open>/local/skydns/db\<close> with two \<open>A\<close>
  leaves, the second with a value that is no address.
\<close>

definition example_store :: "string \<Rightarrow> string + Node" where
  "example_store path =
     (if path = ''local/skydns/db'' then
        Inr (Node ''/local/skydns/db'' [] True 0
              [Node ''/local/skydns/db/1/A'' ''10.0.0.1'' False 30 [],
               Node ''/local/skydns/db/2/A'' ''bad'' False 30 []])
      else Inl ''Key not found'')"

section \<open>Round robin\<close>

lemma rrLoop_mset:
  "length records = l \<Longrightarrow> mset (rrLoop ids l j k records) = mset records"
proof (induction ids l j k records rule: rrLoop.induct)
  case (1 ids l j k records)
  show ?case
  proof (cases "j < l * (unat (ids k) mod 4 + 1)")
    case False
    then show ?thesis
      by (simp add: rrLoop.simps [of ids l j k records])
  next
    case True
    then have pos: "0 < l"
      by (cases l) simp_all
    define q where "q = unat (ids (k + 1)) mod l"
    define p0 where "p0 = unat (ids (k + 2)) mod l"
    define p where "p = (if q = p0 then (p0 + 1) mod l else p0)"
    have q: "q < length records" and p: "p < length records"
      using pos "1.prems" by (simp_all add: q_def p_def p0_def)
    have step: "rrLoop ids l j k records =
        rrLoop ids l (j + 1) (k + 3) (records[q := records ! p, p := records ! q])"
      by (subst rrLoop.simps) (simp only: True if_True Let_def q_def p_def p0_def)
    have "mset (rrLoop ids l (j + 1) (k + 3) (records[q := records ! p, p := records ! q])) =
        mset (records[q := records ! p, p := records ! q])"
      using "1.IH" [OF True q_def p0_def p_def] "1.prems" by simp
    also have "\<dots> = mset records"
      using q p by (simp add: mset_swap)
    finally show ?thesis
      using step by simp
  qed
qed

text \<open>
  C10. The round-robin post-processing of AddressRecords only exchanges elements of
  the list: for every record list and every behaviour of the ID generator the result
  has the same multiset of records, and the same length, as the input.
\<close>

theorem roundRobin_permutation:
  "mset (roundRobin ids records) = mset records \<and>
   length (roundRobin ids records) = length records"
proof -
  have m: "mset (roundRobin ids records) = mset records"
  proof (cases "length records = 2")
    case True
    then have "mset (records[0 := records ! 1, 1 := records ! 0]) = mset records"
      by (simp add: mset_swap)
    with True show ?thesis
      by (simp add: roundRobin_def Let_def)
  next
    case False
    then show ?thesis
      by (simp add: roundRobin_def Let_def rrLoop_mset)
  qed
  from m have "length (roundRobin ids records) = length records"
    by (rule mset_eq_length)
  with m show ?thesis
    by simp
qed

text \<open>When every call of the generator returns the same value, the loop exchanges one
  fixed pair of positions, as often as the bound computed from that value says.\<close>

lemma rrLoop_constant:
  "j + n = l * (unat v mod 4 + 1) \<Longrightarrow>
   rrLoop (\<lambda>k. v) l j k records =
     (exchange (unat v mod l) ((unat v mod l + 1) mod l) ^^ n) records"
proof (induction n arbitrary: j k records)
  case 0
  then have "\<not> j < l * (unat v mod 4 + 1)"
    by simp
  then show ?case
    by (subst rrLoop.simps) simp
next
  case (Suc n)
  then have less: "j < l * (unat v mod 4 + 1)"
    by simp
  let ?q = "unat v mod l"
  let ?p = "(unat v mod l + 1) mod l"
  have "rrLoop (\<lambda>k. v) l j k records =
      rrLoop (\<lambda>k. v) l (j + 1) (k + 3) (exchange ?q ?p records)"
    using less by (subst rrLoop.simps) (simp add: Let_def exchange_def)
  also have "\<dots> = (exchange ?q ?p ^^ n) (exchange ?q ?p records)"
    using Suc.prems by (intro Suc.IH) simp
  also have "\<dots> = (exchange ?q ?p ^^ Suc n) records"
    by (simp add: funpow_swap1)
  finally show ?case .
qed

lemma even_unat_iff: "even (unat (w :: uint16)) \<longleftrightarrow> w mod 2 = 0"
  by (simp add: word_eq_iff_unsigned [where ?'a = nat] unat_mod_distrib even_iff_mod_2_eq_zero)

lemma rrLoop_empty: "rrLoop ids 0 j k records = records"
  by (subst rrLoop.simps) simp

lemma rrLoop_swaps:
  "rrLoop ids l j k records = exchanges_of (rrSwaps ids l j k) records"
proof (induction ids l j k records rule: rrLoop.induct)
  case (1 ids l j k records)
  show ?case
  proof (cases "j < l * (unat (ids k) mod 4 + 1)")
    case False
    then show ?thesis
      by (subst rrLoop.simps, subst rrSwaps.simps) (simp add: exchanges_of_def)
  next
    case True
    define q where "q = unat (ids (k + 1)) mod l"
    define p0 where "p0 = unat (ids (k + 2)) mod l"
    define p where "p = (if q = p0 then (p0 + 1) mod l else p0)"
    have loop: "rrLoop ids l j k records =
        rrLoop ids l (j + 1) (k + 3) (records[q := records ! p, p := records ! q])"
      by (subst rrLoop.simps) (simp only: True if_True Let_def q_def p_def p0_def)
    have swaps: "rrSwaps ids l j k = (q, p) # rrSwaps ids l (j + 1) (k + 3)"
      by (subst rrSwaps.simps) (simp only: True if_True Let_def q_def p_def p0_def)
    have "rrLoop ids l (j + 1) (k + 3) (records[q := records ! p, p := records ! q]) =
        exchanges_of (rrSwaps ids l (j + 1) (k + 3)) (records[q := records ! p, p := records ! q])"
      using "1.IH" [OF True q_def p0_def p_def] by simp
    then show ?thesis
      by (simp add: loop swaps exchanges_of_def exchange_def)
  qed
qed

lemma rrSwaps_closed:
  "k = 3 * j \<Longrightarrow>
   \<exists>n. j \<le> n \<and> rrSwaps ids l j k = map (swap_at ids l) [j..<n] \<and>
       (\<forall>i. j \<le> i \<and> i < n \<longrightarrow> loop_test ids l i) \<and> \<not> loop_test ids l n"
proof (induction ids l j k rule: rrSwaps.induct)
  case (1 ids l j k)
  show ?case
  proof (cases "loop_test ids l j")
    case False
    then have "rrSwaps ids l j k = []"
      using "1.prems" by (subst rrSwaps.simps) (simp add: loop_test_def)
    with False show ?thesis
      by (intro exI [of _ j]) auto
  next
    case True
    then have less: "j < l * (unat (ids k) mod 4 + 1)"
      using "1.prems" by (simp add: loop_test_def)
    have swaps: "rrSwaps ids l j k = swap_at ids l j # rrSwaps ids l (j + 1) (k + 3)"
      using less "1.prems" by (subst rrSwaps.simps) (simp add: swap_at_def Let_def)
    have "\<exists>n. j + 1 \<le> n \<and> rrSwaps ids l (j + 1) (k + 3) = map (swap_at ids l) [j + 1..<n] \<and>
       (\<forall>i. j + 1 \<le> i \<and> i < n \<longrightarrow> loop_test ids l i) \<and> \<not> loop_test ids l n"
      using "1.prems" by (intro "1.IH" [OF less refl refl refl]) simp
    then obtain n where n: "j + 1 \<le> n"
      "rrSwaps ids l (j + 1) (k + 3) = map (swap_at ids l) [j + 1..<n]"
      "\<forall>i. j + 1 \<le> i \<and> i < n \<longrightarrow> loop_test ids l i" "\<not> loop_test ids l n"
      by blast
    have "[j..<n] = j # [j + 1..<n]"
      using n(1) by (simp add: upt_conv_Cons)
    then have "rrSwaps ids l j k = map (swap_at ids l) [j..<n]"
      using n(2) by (simp add: swaps)
    moreover have "loop_test ids l i" if "j \<le> i \<and> i < n" for i
      using that True n(3) by (cases "i = j") auto
    ultimately show ?thesis
      using n(1,4) by (intro exI [of _ n]) simp
  qed
qed

lemma loop_test_bounds:
  assumes "\<forall>i<n. loop_test ids l i" and "\<not> loop_test ids l n"
  shows "l \<le> n \<and> n \<le> 4 * l"
proof
  have "l * 1 \<le> l * (unat (ids (3 * n)) mod 4 + 1)"
    by (rule mult_le_mono2) simp
  with assms(2) show "l \<le> n"
    by (simp add: loop_test_def)
next
  show "n \<le> 4 * l"
  proof (cases n)
    case 0
    then show ?thesis by simp
  next
    case (Suc m)
    with assms(1) have "loop_test ids l m"
      by simp
    then have "m < l * (unat (ids (3 * m)) mod 4 + 1)"
      unfolding loop_test_def .
    moreover have "l * (unat (ids (3 * m)) mod 4 + 1) \<le> l * 4"
      by (rule mult_le_mono2) (simp add: Suc_le_eq)
    ultimately have "m < l * 4"
      by (rule less_le_trans)
    then show ?thesis
      using Suc by simp
  qed
qed

lemma rrSwaps_constant:
  "j + n = l * (unat v mod 4 + 1) \<Longrightarrow>
   rrSwaps (\<lambda>k. v) l j k = replicate n (unat v mod l, (unat v mod l + 1) mod l)"
proof (induction n arbitrary: j k)
  case 0
  then have "\<not> j < l * (unat v mod 4 + 1)"
    by simp
  then show ?case
    by (subst rrSwaps.simps) simp
next
  case (Suc n)
  then have less: "j < l * (unat v mod 4 + 1)"
    by simp
  have "rrSwaps (\<lambda>k. v) l j k =
      (unat v mod l, (unat v mod l + 1) mod l) # rrSwaps (\<lambda>k. v) l (j + 1) (k + 3)"
    using less by (subst rrSwaps.simps) (simp add: Let_def)
  moreover have "rrSwaps (\<lambda>k. v) l (j + 1) (k + 3) =
      replicate n (unat v mod l, (unat v mod l + 1) mod l)"
    using Suc.prems by (intro Suc.IH) simp
  ultimately show ?case
    by simp
qed

lemma roundRobin_constant:
  "roundRobin (\<lambda>k. v) records = spec_shuffle v records"
proof -
  consider "length records = 0" | "length records = 1" | "length records = 2"
    | "3 \<le> length records"
    by linarith
  then show ?thesis
  proof cases
    case 1
    then show ?thesis
      by (simp add: roundRobin_def spec_shuffle_def rrLoop_empty)
  next
    case 2
    then show ?thesis
      by (simp add: roundRobin_def spec_shuffle_def)
  next
    case 3
    then show ?thesis
      by (simp add: roundRobin_def spec_shuffle_def exchange_def even_unat_iff)
  next
    case 4
    then have "roundRobin (\<lambda>k. v) records = rrLoop (\<lambda>k. v) (length records) 0 0 records"
      by (simp add: roundRobin_def Let_def)
    also have "\<dots> = (exchange (unat v mod length records)
        ((unat v mod length records + 1) mod length records)
          ^^ (length records * (unat v mod 4 + 1))) records"
      by (rule rrLoop_constant) simp
    also have "\<dots> = spec_shuffle v records"
      using 4 by (simp add: spec_shuffle_def Let_def)
    finally show ?thesis .
  qed
qed

text \<open>
  C1 (amended). The shuffle of AddressRecords is driven by the values that successive
  calls of the generator \<^verbatim>\<open>dns.Id()\<close> return, not by the ID of the query. Zero or
  one record: no change. Two records: exchanged exactly when the first value is even.
  Three or more records: the result is the list after the exchanges of \<open>rrSwaps\<close>
  in order; there are \<open>n\<close> of them, where \<open>n\<close> is the first number with
  \<open>n \<ge> length * (c mod 4 + 1)\<close> for the value \<open>c\<close> of call \<open>3 * n\<close>,
  so between \<open>length\<close> and \<open>4 * length\<close>; the \<open>i\<close>-th exchanges the
  position \<open>a mod length\<close> with \<open>b mod length\<close>, advanced by one (wrapping)
  when the two coincide, for the values \<open>a\<close>, \<open>b\<close> of the calls
  \<open>3 * i + 1\<close> and \<open>3 * i + 2\<close>. When every call returns the same value
  \<open>v\<close>, the result is the specification's shuffle for \<open>v\<close>, and for three or
  more records the loop makes exactly \<open>length * (v mod 4 + 1)\<close> exchanges, each of
  the position \<open>v mod length\<close> with the next position (wrapping).
\<close>

theorem roundRobin_by_generator:
  "(length records \<le> 1 \<longrightarrow> roundRobin ids records = records) \<and>
   (length records = 2 \<longrightarrow>
      roundRobin ids records =
        (if even (unat (ids 0)) then exchange 0 1 records else records)) \<and>
   (3 \<le> length records \<longrightarrow>
      roundRobin ids records = exchanges_of (rrSwaps ids (length records) 0 0) records \<and>
      (\<exists>n. rrSwaps ids (length records) 0 0 = map (swap_at ids (length records)) [0..<n] \<and>
           (\<forall>i<n. loop_test ids (length records) i) \<and>
           \<not> loop_test ids (length records) n \<and>
           length records \<le> n \<and> n \<le> 4 * length records)) \<and>
   roundRobin (\<lambda>k. v) records = spec_shuffle v records \<and>
   (3 \<le> length records \<longrightarrow>
      rrSwaps (\<lambda>k. v) (length records) 0 0 =
        replicate (length records * (unat v mod 4 + 1))
          (unat v mod length records, (unat v mod length records + 1) mod length records))"
proof (intro conjI impI)
  assume "length records \<le> 1"
  then consider "length records = 0" | "length records = 1"
    by linarith
  then show "roundRobin ids records = records"
    by cases (simp_all add: roundRobin_def rrLoop_empty)
next
  assume "length records = 2"
  then show "roundRobin ids records =
      (if even (unat (ids 0)) then exchange 0 1 records else records)"
    by (simp add: roundRobin_def exchange_def even_unat_iff)
next
  assume "3 \<le> length records"
  then show "roundRobin ids records = exchanges_of (rrSwaps ids (length records) 0 0) records"
    by (simp add: roundRobin_def Let_def rrLoop_swaps)
next
  assume "3 \<le> length records"
  obtain n where n: "rrSwaps ids (length records) 0 0 = map (swap_at ids (length records)) [0..<n]"
    "\<forall>i. 0 \<le> i \<and> i < n \<longrightarrow> loop_test ids (length records) i"
    "\<not> loop_test ids (length records) n"
    using rrSwaps_closed [of 0 0 ids "length records"] by auto
  then have tests: "\<forall>i<n. loop_test ids (length records) i"
    by simp
  from tests n(3) have "length records \<le> n \<and> n \<le> 4 * length records"
    by (rule loop_test_bounds)
  with n(1,3) tests
  show "\<exists>n. rrSwaps ids (length records) 0 0 = map (swap_at ids (length records)) [0..<n] \<and>
      (\<forall>i<n. loop_test ids (length records) i) \<and> \<not> loop_test ids (length records) n \<and>
      length records \<le> n \<and> n \<le> 4 * length records"
    by (intro exI [of _ n]) simp
next
  show "roundRobin (\<lambda>k. v) records = spec_shuffle v records"
    by (rule roundRobin_constant)
next
  show "rrSwaps (\<lambda>k. v) (length records) 0 0 =
      replicate (length records * (unat v mod 4 + 1))
        (unat v mod length records, (unat v mod length records + 1) mod length records)"
    by (rule rrSwaps_constant) simp
qed

theorem roundRobin_by_generator_witness:
  "roundRobin varying_ids ''abc'' = exchanges_of [(0, 1), (1, 2), (0, 1), (0, 1)] ''abc'' \<and>
   rrSwaps (\<lambda>k. 2) 3 0 0 = replicate 9 (2, 0) \<and>
   roundRobin (\<lambda>k. 2) ''abc'' = spec_shuffle 2 ''abc''"
proof -
  have len: "length ''abc'' = 3"
    by simp
  have "rrSwaps varying_ids 3 0 0 = [(0, 1), (1, 2), (0, 1), (0, 1)]"
    by (simp add: rrSwaps.simps varying_ids_def)
  with roundRobin_by_generator [of "''abc''" varying_ids 2, unfolded len] show ?thesis
    by simp
qed

lemma length_exchange: "length (exchange q p r) = length r"
  by (simp add: exchange_def)

lemma exchange_twice:
  "q < length r \<Longrightarrow> p < length r \<Longrightarrow> exchange q p (exchange q p r) = r"
  by (auto simp add: exchange_def list_eq_iff_nth_eq nth_list_update)

lemma exchange_funpow:
  "q < length r \<Longrightarrow> p < length r \<Longrightarrow>
   (exchange q p ^^ n) r = (if even n then r else exchange q p r)"
proof (induction n)
  case 0
  show ?case by simp
next
  case (Suc n)
  then show ?case
    by (simp add: exchange_twice)
qed

lemma spec_shuffle_parity:
  assumes "3 \<le> length r"
  shows "spec_shuffle qid r =
    (if even (length r * (unat qid mod 4 + 1)) then r
     else exchange (unat qid mod length r) ((unat qid mod length r + 1) mod length r) r)"
proof -
  from assms have "r \<noteq> []"
    by auto
  then have "unat qid mod length r < length r" "(unat qid mod length r + 1) mod length r < length r"
    by simp_all
  then have "(exchange (unat qid mod length r) ((unat qid mod length r + 1) mod length r)
      ^^ (length r * (unat qid mod 4 + 1))) r =
    (if even (length r * (unat qid mod 4 + 1)) then r
     else exchange (unat qid mod length r) ((unat qid mod length r + 1) mod length r) r)"
    by (rule exchange_funpow)
  with assms show ?thesis
    by (simp only: spec_shuffle_def Let_def) simp
qed

lemma roundRobin_varying: "roundRobin varying_ids ''abc'' = ''bca''"
  by (simp add: roundRobin_def rrLoop.simps varying_ids_def)

lemma spec_shuffle_three:
  "spec_shuffle qid ''abc'' \<in> {''abc'', ''bac'', ''acb'', ''cba''}"
proof -
  let ?q = "unat qid mod 3"
  let ?p = "(unat qid mod 3 + 1) mod 3"
  have "?q = 0 \<or> ?q = 1 \<or> ?q = 2"
    by arith
  then have "exchange ?q ?p ''abc'' \<in> {''bac'', ''acb'', ''cba''}"
    by (auto simp add: exchange_def)
  then show ?thesis
    by (simp add: spec_shuffle_parity)
qed

text \<open>
  C1 as stated fails: the generator is called afresh for the loop bound and for each of
  the two positions of every exchange. With a generator whose successive values are
  \<open>0, 0, 1, 0, 1, 2, 0, 0, 1, 1, 0, 1, 0\<close> the loop makes four exchanges, of the
  positions (0,1), (1,2), (0,1), (0,1), and turns the list \<open>a, b, c\<close> into
  \<open>b, c, a\<close>: a result that the specification's shuffle gives for no ID.
\<close>

theorem roundRobin_not_keyed_by_one_id:
  "\<not> (\<exists>qid. roundRobin varying_ids ''abc'' = spec_shuffle qid ''abc'')"
proof
  assume "\<exists>qid. roundRobin varying_ids ''abc'' = spec_shuffle qid ''abc''"
  then obtain qid where "spec_shuffle qid ''abc'' = ''bca''"
    by (auto simp add: roundRobin_varying)
  with spec_shuffle_three [of qid] show False
    by simp
qed

section \<open>The name-path mapping\<close>

lemma reverseLoop_nth:
  "0 \<le> i \<Longrightarrow> i + j = int (length l) - 1 \<Longrightarrow>
   length (reverseLoop l i j) = length l \<and>
   (\<forall>k < length l. reverseLoop l i j ! k =
      (if i \<le> int k \<and> int k \<le> j then l ! nat (i + j - int k) else l ! k))"
proof (induction l i j rule: reverseLoop.induct)
  case (1 l i j)
  show ?case
  proof (cases "i < j")
    case False
    have "reverseLoop l i j = l"
      using False by (subst reverseLoop.simps) simp
    moreover have "nat (i + j - int k) = k" if "i \<le> int k" "int k \<le> j" for k
      using that False by simp
    ultimately show ?thesis
      by simp
  next
    case True
    define l' where "l' = l[nat i := l ! nat j, nat j := l ! nat i]"
    have step: "reverseLoop l i j = reverseLoop l' (i + 1) (j - 1)"
      using True by (subst reverseLoop.simps) (simp add: l'_def)
    have len: "length l' = length l"
      by (simp add: l'_def)
    have IH: "length (reverseLoop l' (i + 1) (j - 1)) = length l' \<and>
      (\<forall>k < length l'. reverseLoop l' (i + 1) (j - 1) ! k =
        (if i + 1 \<le> int k \<and> int k \<le> j - 1 then l' ! nat (i + 1 + (j - 1) - int k) else l' ! k))"
      using "1.IH" [OF True] "1.prems" by (simp add: l'_def)
    have ij: "nat i < length l" "nat j < length l" "nat i \<noteq> nat j"
      using True "1.prems" by auto
    have inner: "l' ! k = l ! k" if "k \<noteq> nat i" "k \<noteq> nat j" for k
      using that by (simp add: l'_def)
    have at_i: "l' ! nat i = l ! nat j" and at_j: "l' ! nat j = l ! nat i"
      using ij by (simp_all add: l'_def)
    show ?thesis
    proof (intro conjI allI impI)
      show "length (reverseLoop l i j) = length l"
        using step IH len by simp
    next
      fix k assume k: "k < length l"
      from k IH len have res: "reverseLoop l' (i + 1) (j - 1) ! k =
          (if i + 1 \<le> int k \<and> int k \<le> j - 1 then l' ! nat (i + 1 + (j - 1) - int k) else l' ! k)"
        by simp
      consider "int k = i" | "int k = j" | "i < int k" "int k < j" | "int k < i" | "j < int k"
        by linarith
      then show "reverseLoop l i j ! k =
          (if i \<le> int k \<and> int k \<le> j then l ! nat (i + j - int k) else l ! k)"
      proof cases
        case 1
        then have "k = nat i" "nat (i + j - int k) = nat j"
          by simp_all
        moreover from 1 res have "reverseLoop l' (i + 1) (j - 1) ! k = l' ! k"
          by simp
        ultimately show ?thesis
          using step at_i 1 True by simp
      next
        case 2
        then have "k = nat j" "nat (i + j - int k) = nat i"
          by simp_all
        moreover from 2 res have "reverseLoop l' (i + 1) (j - 1) ! k = l' ! k"
          by simp
        ultimately show ?thesis
          using step at_j 2 True by simp
      next
        case 3
        then have "nat (i + j - int k) \<noteq> nat i" "nat (i + j - int k) \<noteq> nat j"
          using "1.prems"(1) by linarith+
        then have "l' ! nat (i + j - int k) = l ! nat (i + j - int k)"
          by (rule inner)
        moreover from 3 res have "reverseLoop l' (i + 1) (j - 1) ! k = l' ! nat (i + j - int k)"
          by simp
        ultimately show ?thesis
          using step 3 by simp
      next
        case 4
        then have "k \<noteq> nat i" "k \<noteq> nat j"
          using True by linarith+
        then have "l' ! k = l ! k"
          by (rule inner)
        moreover from 4 res have "reverseLoop l' (i + 1) (j - 1) ! k = l' ! k"
          by simp
        ultimately show ?thesis
          using step 4 by simp
      next
        case 5
        then have "k \<noteq> nat i" "k \<noteq> nat j"
          using True "1.prems"(1) by linarith+
        then have "l' ! k = l ! k"
          by (rule inner)
        moreover from 5 True res have "reverseLoop l' (i + 1) (j - 1) ! k = l' ! k"
          by simp
        ultimately show ?thesis
          using step 5 by simp
      qed
    qed
  qed
qed

lemma reverseLoop_rev: "reverseLoop l 0 (int (length l) - 1) = rev l"
proof (rule nth_equalityI)
  show "length (reverseLoop l 0 (int (length l) - 1)) = length (rev l)"
    using reverseLoop_nth [of 0 "int (length l) - 1" l] by simp
next
  fix k assume "k < length (reverseLoop l 0 (int (length l) - 1))"
  then have k: "k < length l"
    using reverseLoop_nth [of 0 "int (length l) - 1" l] by simp
  then have "reverseLoop l 0 (int (length l) - 1) ! k = l ! nat (int (length l) - 1 - int k)"
    using reverseLoop_nth [of 0 "int (length l) - 1" l] by auto
  also have "nat (int (length l) - 1 - int k) = length l - Suc k"
    using k by linarith
  finally show "reverseLoop l 0 (int (length l) - 1) ! k = rev l ! k"
    using k by (simp add: rev_nth)
qed

lemma Split_no_sep: "c \<notin> set x \<Longrightarrow> Split x c = [x]"
  by (induction x) auto

lemma Split_append_sep: "c \<notin> set x \<Longrightarrow> Split (x @ c # rest) c = x # Split rest c"
  by (induction x) auto

lemma Split_Join:
  "ls \<noteq> [] \<Longrightarrow> \<forall>l \<in> set ls. c \<notin> set l \<Longrightarrow> Split (Join ls [c]) c = ls"
proof (induction ls "[c]" rule: Join.induct)
  case 1
  then show ?case by simp
next
  case (2 x)
  then show ?case by (simp add: Split_no_sep)
next
  case (3 x y ys)
  then show ?case by (simp add: Split_append_sep)
qed

text \<open>
  C6 (amended). questionToPath splits the name into labels, reverses their order and
  joins them with \<open>/\<close>, for every name and every behaviour of the label
  splitter, and it always returns. When the splitter gives the labels \<open>b\<close>,
  \<open>a\<close> for \<open>b.a.\<close>, the path is \<open>a/b\<close>. When no label contains the
  path separator \<open>/\<close>, re-joining the segments of the path in reverse order with
  dots gives the joined labels back, and for a name with at least one label the
  reversed segments are the labels.
\<close>

theorem questionToPath_reverses:
  "questionToPath e s = Join (rev (SplitDomainName e s)) ''/'' \<and>
   (SplitDomainName e ''b.a.'' = [''b'', ''a''] \<longrightarrow> questionToPath e ''b.a.'' = ''a/b'') \<and>
   ((\<forall>label \<in> set (SplitDomainName e s). CHR ''/'' \<notin> set label) \<longrightarrow>
      Join (rev (Split (questionToPath e s) (CHR ''/''))) ''.'' = Join (SplitDomainName e s) ''.'' \<and>
      (SplitDomainName e s \<noteq> [] \<longrightarrow>
         rev (Split (questionToPath e s) (CHR ''/'')) = SplitDomainName e s))"
proof -
  have path: "questionToPath e s = Join (rev (SplitDomainName e s)) ''/''" for s
    by (simp add: questionToPath_def Let_def reverseLoop_rev)
  have ba_path: "questionToPath e ''b.a.'' = ''a/b''" if "SplitDomainName e ''b.a.'' = [''b'', ''a'']"
    using that by (simp add: path)
  have inverse_path: "rev (Split (questionToPath e s) (CHR ''/'')) = SplitDomainName e s"
    if "\<forall>label \<in> set (SplitDomainName e s). CHR ''/'' \<notin> set label" "SplitDomainName e s \<noteq> []"
  proof -
    have "Split (Join (rev (SplitDomainName e s)) [CHR ''/'']) (CHR ''/'') = rev (SplitDomainName e s)"
      using that by (intro Split_Join) simp_all
    then show ?thesis
      by (simp add: path)
  qed
  have joined: "Join (rev (Split (questionToPath e s) (CHR ''/''))) ''.'' = Join (SplitDomainName e s) ''.''"
    if "\<forall>label \<in> set (SplitDomainName e s). CHR ''/'' \<notin> set label"
  proof (cases "SplitDomainName e s = []")
    case True
    then show ?thesis by (simp add: path)
  next
    case False
    with that show ?thesis by (simp add: inverse_path)
  qed
  from path ba_path inverse_path joined show ?thesis
    by blast
qed

theorem questionToPath_reverses_witness:
  "questionToPath example_env ''b.a.'' = ''a/b'' \<and>
   rev (Split (questionToPath example_env ''b.a.'') (CHR ''/'')) = [''b'', ''a'']"
  using questionToPath_reverses [of example_env "''b.a.''"]
  by (simp add: example_env_def dot_SplitDomainName_def)

text \<open>
  C6 as stated fails for a label that contains a slash, which questionToPath does not
  escape: the labels \<open>a/b\<close>, \<open>c\<close> of \<open>a/b.c.\<close> give the path
  \<open>c/a/b\<close>, whose segments in reverse order are \<open>b\<close>, \<open>a\<close>, \<open>c\<close>.
\<close>

theorem questionToPath_slash_label:
  "SplitDomainName example_env ''a/b.c.'' = [''a/b'', ''c''] \<and>
   questionToPath example_env ''a/b.c.'' = ''c/a/b'' \<and>
   rev (Split (questionToPath example_env ''a/b.c.'') (CHR ''/'')) = [''b'', ''a'', ''c'']"
  by (simp add: questionToPath_def reverseLoop_rev example_env_def dot_SplitDomainName_def)

section \<open>The SOA record\<close>

lemma uint_serial:
  "0 \<le> t \<Longrightarrow> t < 2 ^ 32 \<Longrightarrow> uint (word_of_int (Truncate_Hour t) :: uint32) = Truncate_Hour t"
proof -
  assume t: "0 \<le> t" "t < 2 ^ 32"
  have "t mod 3600 \<le> t" "0 \<le> t mod 3600"
    using t by (simp_all add: zmod_le_nonneg_dividend)
  then have "0 \<le> Truncate_Hour t" "Truncate_Hour t \<le> t"
    by (simp_all add: Truncate_Hour_def)
  with t have "Truncate_Hour t mod 2 ^ 32 = Truncate_Hour t"
    by simp
  then show ?thesis
    by (simp add: uint_word_of_int)
qed

lemma Truncate_Hour_div: "Truncate_Hour t = 3600 * (t div 3600)"
  by (simp add: Truncate_Hour_def minus_mod_eq_mult_div)

text \<open>
  C7 (amended). Every SOA record of the server has the nameserver
  \<open>master.<zone>\<close>, the mailbox \<open>hostmaster.<zone>\<close>, refresh 28800, retry
  7200, expire 604800 and the configured minimum TTL as minimum. For every clock
  reading \<open>t\<close> (seconds since the epoch) its serial is \<open>t\<close> truncated to the
  hour, \<open>3600 * (t div 3600)\<close>, reduced modulo \<open>2^32\<close>. Two readings in the
  same clock hour give the same serial. For clock readings from 0 up to (not
  including) \<open>2^32\<close> the serial is the truncated reading itself, it does not
  decrease as the clock advances, and it is strictly larger after an hour boundary.
\<close>

theorem SOA_fields:
  "SOA e s =
     RR_SOA \<lparr>Hdr_Name = domain s, Rrtype = TypeSOA, Class = ClassINET, Hdr_Ttl = Ttl s\<rparr>
       (''master.'' @ domain s) (''hostmaster.'' @ domain s)
       (word_of_int (3600 * (Now e div 3600))) 28800 7200 604800 (MinTtl s) \<and>
   uint (SOA_Serial (SOA e s)) = (3600 * (Now e div 3600)) mod 2 ^ 32 \<and>
   Truncate_Hour (Now e) = 3600 * (Now e div 3600) \<and>
   (0 \<le> Now e \<and> Now e < 2 ^ 32 \<longrightarrow> uint (SOA_Serial (SOA e s)) = Truncate_Hour (Now e)) \<and>
   (Now e div 3600 = Now e' div 3600 \<longrightarrow> SOA_Serial (SOA e s) = SOA_Serial (SOA e' s)) \<and>
   (0 \<le> Now e \<and> Now e \<le> Now e' \<and> Now e' < 2 ^ 32 \<longrightarrow>
      SOA_Serial (SOA e s) \<le> SOA_Serial (SOA e' s)) \<and>
   (0 \<le> Now e \<and> Now e div 3600 < Now e' div 3600 \<and> Now e' < 2 ^ 32 \<longrightarrow>
      SOA_Serial (SOA e s) < SOA_Serial (SOA e' s))"
proof -
  have serial: "SOA_Serial (SOA e s) = word_of_int (Truncate_Hour (Now e))" for e
    by (simp add: SOA_def)
  have fields: "SOA e s =
     RR_SOA \<lparr>Hdr_Name = domain s, Rrtype = TypeSOA, Class = ClassINET, Hdr_Ttl = Ttl s\<rparr>
       (''master.'' @ domain s) (''hostmaster.'' @ domain s)
       (word_of_int (3600 * (Now e div 3600))) 28800 7200 604800 (MinTtl s)"
    by (simp add: SOA_def Truncate_Hour_div)
  have reduced: "uint (SOA_Serial (SOA e s)) = (3600 * (Now e div 3600)) mod 2 ^ 32"
    unfolding serial Truncate_Hour_div uint_word_of_int by simp
  have in_range: "uint (SOA_Serial (SOA e s)) = Truncate_Hour (Now e)"
    if "0 \<le> Now e" "Now e < 2 ^ 32"
    using that by (simp add: serial uint_serial)
  have same: "SOA_Serial (SOA e s) = SOA_Serial (SOA e' s)" if "Now e div 3600 = Now e' div 3600"
    using that by (simp add: serial Truncate_Hour_div)
  have le: "SOA_Serial (SOA e s) \<le> SOA_Serial (SOA e' s)"
    if "0 \<le> Now e" "Now e \<le> Now e'" "Now e' < 2 ^ 32"
  proof -
    have "Now e div 3600 \<le> Now e' div 3600"
      using that by (intro zdiv_mono1) simp_all
    then have "Truncate_Hour (Now e) \<le> Truncate_Hour (Now e')"
      by (simp add: Truncate_Hour_div)
    then show ?thesis
      using that by (simp add: serial word_le_def uint_serial)
  qed
  have less: "SOA_Serial (SOA e s) < SOA_Serial (SOA e' s)"
    if "0 \<le> Now e" "Now e div 3600 < Now e' div 3600" "Now e' < 2 ^ 32"
  proof -
    have "Now e < Now e'"
      using that(2) by (rule contrapos_pp) (simp add: not_less zdiv_mono1)
    moreover have "Truncate_Hour (Now e) < Truncate_Hour (Now e')"
      using that(2) by (simp add: Truncate_Hour_div)
    ultimately show ?thesis
      using that by (simp add: serial word_less_def uint_serial)
  qed
  show ?thesis
    using fields reduced in_range same le less
    by (intro conjI impI) (simp_all only: Truncate_Hour_div)
qed

theorem SOA_fields_witness:
  "uint (SOA_Serial (SOA example_env example_server)) = 1699999200 \<and>
   SOA_Serial (SOA example_env example_server) =
     SOA_Serial (SOA (example_env\<lparr>Now := 1700000100\<rparr>) example_server) \<and>
   SOA_Serial (SOA example_env example_server) <
     SOA_Serial (SOA (example_env\<lparr>Now := 1700003600\<rparr>) example_server)"
proof -
  note same_hour = SOA_fields [of example_env example_server "example_env\<lparr>Now := 1700000100\<rparr>"]
  note next_hour = SOA_fields [of example_env example_server "example_env\<lparr>Now := 1700003600\<rparr>"]
  have now: "Now example_env = 1700000000"
    by (simp add: example_env_def)
  from same_hour [THEN conjunct2, THEN conjunct1]
  have "uint (SOA_Serial (SOA example_env example_server)) = 1699999200"
    by (simp add: now)
  moreover from same_hour [THEN conjunct2, THEN conjunct2, THEN conjunct2, THEN conjunct2,
      THEN conjunct1]
  have "SOA_Serial (SOA example_env example_server) =
     SOA_Serial (SOA (example_env\<lparr>Now := 1700000100\<rparr>) example_server)"
    by (simp add: now)
  moreover from next_hour [THEN conjunct2, THEN conjunct2, THEN conjunct2, THEN conjunct2,
      THEN conjunct2, THEN conjunct2]
  have "SOA_Serial (SOA example_env example_server) <
     SOA_Serial (SOA (example_env\<lparr>Now := 1700003600\<rparr>) example_server)"
    by (simp add: now)
  ultimately show ?thesis
    by simp
qed

text \<open>
  C7 as stated fails once the clock passes \<open>2^32\<close> seconds (in the year 2106),
  because the serial is a \<^verbatim>\<open>uint32\<close>: at the hour that starts at 4294969200 the
  serial is 1904, which is not the truncated time and is smaller than the serial
  4294965600 of the hour before.
\<close>

theorem SOA_serial_wraps:
  "Truncate_Hour 4294969200 = 4294969200 \<and>
   uint (SOA_Serial (SOA (example_env\<lparr>Now := 4294969200\<rparr>) example_server)) = 1904 \<and>
   uint (SOA_Serial (SOA (example_env\<lparr>Now := 4294965600\<rparr>) example_server)) = 4294965600 \<and>
   SOA_Serial (SOA (example_env\<lparr>Now := 4294969200\<rparr>) example_server) <
     SOA_Serial (SOA (example_env\<lparr>Now := 4294965600\<rparr>) example_server)"
  by (simp add: SOA_def Truncate_Hour_def example_env_def)

section \<open>AddressRecords\<close>

lemma To4_IPv4: "To4 (IPv4 a b c d) = [a, b, c, d]"
  by (simp add: To4_def IPv4_def eval_nat_numeral)

lemma To16_sixteen: "length ip = 16 \<Longrightarrow> To16 ip = ip"
  by (simp add: To16_def)

lemma To4_doc_address:
  "To4 [0x20, 0x01, 0x0d, 0xb8, 0, 0, 0, 0, 0, 0, 0, 0, 0, 0, 0, 1] = []"
  by (simp add: To4_def eval_nat_numeral)

text \<open>
  C9. An A query for \<open>master.<zone>\<close>, when the store reports two cluster members
  whose URLs have the hosts 10.0.0.1 and 2001:db8::1, returns exactly one A record
  with the address 10.0.0.1 and one AAAA record with the address 2001:db8::1, in this
  order, each with the server's default TTL in its header; the only store call is the
  one for the cluster members.
\<close>

theorem cluster_answers:
  assumes "ToLower e (Name q) = ''master.'' @ domain s" and "Qtype q = TypeA"
    and "GetCluster e = [m1, m2]"
    and "url_Parse e m1 = Some h1" and "SplitHostPort e h1 = Some (a1, p1)"
    and "ParseIP e a1 = IPv4 10 0 0 1"
    and "url_Parse e m2 = Some h2" and "SplitHostPort e h2 = Some (a2, p2)"
    and "ParseIP e a2 = [0x20, 0x01, 0x0d, 0xb8, 0, 0, 0, 0, 0, 0, 0, 0, 0, 0, 0, 1]"
  shows "AddressRecords e s q =
    (Inr [RR_A \<lparr>Hdr_Name = Name q, Rrtype = TypeA, Class = ClassINET, Hdr_Ttl = Ttl s\<rparr>
            [10, 0, 0, 1],
          RR_AAAA \<lparr>Hdr_Name = Name q, Rrtype = TypeAAAA, Class = ClassINET, Hdr_Ttl = Ttl s\<rparr>
            [0x20, 0x01, 0x0d, 0xb8, 0, 0, 0, 0, 0, 0, 0, 0, 0, 0, 0, 1]],
     [Call_GetCluster])"
  using assms by (simp add: AddressRecords_def To4_IPv4 To4_doc_address To16_sixteen)

theorem cluster_answers_witness:
  "AddressRecords example_env example_server
     \<lparr>Name = ''Master.SkyDNS.local.'', Qtype = TypeA, Qclass = ClassINET\<rparr> =
    (Inr [RR_A \<lparr>Hdr_Name = ''Master.SkyDNS.local.'', Rrtype = TypeA, Class = ClassINET,
                 Hdr_Ttl = 3600\<rparr> [10, 0, 0, 1],
          RR_AAAA \<lparr>Hdr_Name = ''Master.SkyDNS.local.'', Rrtype = TypeAAAA, Class = ClassINET,
                    Hdr_Ttl = 3600\<rparr> [0x20, 0x01, 0x0d, 0xb8, 0, 0, 0, 0, 0, 0, 0, 0, 0, 0, 0, 1]],
     [Call_GetCluster])"
  using cluster_answers [of example_env
      "\<lparr>Name = ''Master.SkyDNS.local.'', Qtype = TypeA, Qclass = ClassINET\<rparr>" example_server
      "''http://10.0.0.1:4001''" "''http://[2001:db8::1]:4001''"
      "''10.0.0.1:4001''" "''10.0.0.1''" "''4001''"
      "''[2001:db8::1]:4001''" "''2001:db8::1''" "''4001''"]
  by (simp add: example_env_def example_server_def ascii_ToLower_def)

lemma clusterLoop_RoundRobin:
  "clusterLoop e (s\<lparr>RoundRobin := b\<rparr>) q ms records = clusterLoop e s q ms records"
  by (induction ms arbitrary: records) (simp_all add: Let_def split: option.splits)

text \<open>
  C8 (amended). With round-robin enabled, every record set that AddressRecords builds
  from the stored tree (a name other than the zone apex and \<open>master.<zone>\<close>) is
  passed through the round-robin block before it is returned; the answers for the zone
  apex and \<open>master.<zone>\<close>, built from the cluster members, are returned as
  built, in the order of the members, exactly as with round-robin disabled.
\<close>

theorem roundRobin_applied:
  assumes "RoundRobin s"
  shows "(ToLower e (Name q) \<noteq> ''master.'' @ domain s \<and> ToLower e (Name q) \<noteq> domain s \<longrightarrow>
      AddressRecords e s q =
        (case AddressRecords e (s\<lparr>RoundRobin := False\<rparr>) q of
           (Inr records, calls) \<Rightarrow> (Inr (roundRobin (dns_Id e) records), calls)
         | (Inl err, calls) \<Rightarrow> (Inl err, calls))) \<and>
    (ToLower e (Name q) = ''master.'' @ domain s \<or> ToLower e (Name q) = domain s \<longrightarrow>
      AddressRecords e s q = AddressRecords e (s\<lparr>RoundRobin := False\<rparr>) q)"
proof (intro conjI impI)
  assume "ToLower e (Name q) \<noteq> ''master.'' @ domain s \<and> ToLower e (Name q) \<noteq> domain s"
  with assms show "AddressRecords e s q =
      (case AddressRecords e (s\<lparr>RoundRobin := False\<rparr>) q of
         (Inr records, calls) \<Rightarrow> (Inr (roundRobin (dns_Id e) records), calls)
       | (Inl err, calls) \<Rightarrow> (Inl err, calls))"
    by (simp add: AddressRecords_def Let_def split: sum.splits)
next
  assume "ToLower e (Name q) = ''master.'' @ domain s \<or> ToLower e (Name q) = domain s"
  then show "AddressRecords e s q = AddressRecords e (s\<lparr>RoundRobin := False\<rparr>) q"
    by (auto simp add: AddressRecords_def clusterLoop_RoundRobin)
qed

lemma db_path: "questionToPath example_env ''db.skydns.local.'' = ''local/skydns/db''"
  by (simp add: questionToPath_def reverseLoop_rev example_env_def dot_SplitDomainName_def)

lemma lower_db: "ToLower example_env ''db.skydns.local.'' = ''db.skydns.local.''"
  by (simp add: example_env_def ascii_ToLower_def)

lemma parse_examples:
  "ParseIP example_env ''10.0.0.1'' = IPv4 10 0 0 1"
  "ParseIP example_env ''bad'' = []"
  by (simp_all add: example_env_def)

lemma To4_nil: "To4 [] = []"
  by (simp add: To4_def)

lemma To16_nil: "To16 [] = []"
  by (simp add: To16_def)

theorem roundRobin_applied_witness:
  "AddressRecords (example_env\<lparr>Get := example_store\<rparr>) example_server
     \<lparr>Name = ''db.skydns.local.'', Qtype = TypeA, Qclass = ClassINET\<rparr> =
   (Inr [RR_A \<lparr>Hdr_Name = ''db.skydns.local.'', Rrtype = TypeA, Class = ClassINET, Hdr_Ttl = 30\<rparr> [],
         RR_A \<lparr>Hdr_Name = ''db.skydns.local.'', Rrtype = TypeA, Class = ClassINET, Hdr_Ttl = 30\<rparr>
           [10, 0, 0, 1]],
    [Call_Get ''local/skydns/db''])"
proof -
  let ?e = "example_env\<lparr>Get := example_store\<rparr>"
  let ?q = "\<lparr>Name = ''db.skydns.local.'', Qtype = TypeA, Qclass = ClassINET\<rparr>"
  have path: "questionToPath ?e ''db.skydns.local.'' = ''local/skydns/db''"
    using db_path by (simp add: questionToPath_def)
  have plain: "AddressRecords ?e (example_server\<lparr>RoundRobin := False\<rparr>) ?q =
   (Inr [RR_A \<lparr>Hdr_Name = ''db.skydns.local.'', Rrtype = TypeA, Class = ClassINET, Hdr_Ttl = 30\<rparr>
           [10, 0, 0, 1],
         RR_A \<lparr>Hdr_Name = ''db.skydns.local.'', Rrtype = TypeA, Class = ClassINET, Hdr_Ttl = 30\<rparr> []],
    [Call_Get ''local/skydns/db''])"
    by (simp add: AddressRecords_def Let_def path lower_db example_server_def example_store_def
        HasSuffix_def parse_examples To4_IPv4 To4_nil)
  have ids: "dns_Id ?e = (\<lambda>k. 0)"
    by (simp add: example_env_def)
  show ?thesis
    using roundRobin_applied [of example_server ?e ?q]
    by (simp add: plain lower_db ids roundRobin_def) (simp add: example_server_def)
qed

lemma cluster_example:
  "AddressRecords example_env example_server
     \<lparr>Name = ''master.skydns.local.'', Qtype = TypeA, Qclass = ClassINET\<rparr> =
    (Inr [RR_A \<lparr>Hdr_Name = ''master.skydns.local.'', Rrtype = TypeA, Class = ClassINET,
                 Hdr_Ttl = 3600\<rparr> [10, 0, 0, 1],
          RR_AAAA \<lparr>Hdr_Name = ''master.skydns.local.'', Rrtype = TypeAAAA, Class = ClassINET,
                    Hdr_Ttl = 3600\<rparr> [0x20, 0x01, 0x0d, 0xb8, 0, 0, 0, 0, 0, 0, 0, 0, 0, 0, 0, 1]],
     [Call_GetCluster])"
  by (simp add: AddressRecords_def Let_def example_env_def example_server_def ascii_ToLower_def
      To4_IPv4 To4_doc_address To16_sixteen)

text \<open>
  C8 as stated fails for the cluster answers: the branch for the zone apex and
  \<open>master.<zone>\<close> returns before the round-robin block. With round-robin enabled
  and a generator that returns 0, the A query for \<open>master.skydns.local.\<close> is
  answered with the A record before the AAAA record, while the round-robin block would
  exchange the two.
\<close>

theorem cluster_answers_not_shuffled:
  "RoundRobin example_server \<and>
   fst (AddressRecords example_env example_server
     \<lparr>Name = ''master.skydns.local.'', Qtype = TypeA, Qclass = ClassINET\<rparr>) =
    Inr [RR_A \<lparr>Hdr_Name = ''master.skydns.local.'', Rrtype = TypeA, Class = ClassINET,
                 Hdr_Ttl = 3600\<rparr> [10, 0, 0, 1],
         RR_AAAA \<lparr>Hdr_Name = ''master.skydns.local.'', Rrtype = TypeAAAA, Class = ClassINET,
                    Hdr_Ttl = 3600\<rparr> [0x20, 0x01, 0x0d, 0xb8, 0, 0, 0, 0, 0, 0, 0, 0, 0, 0, 0, 1]] \<and>
   roundRobin (dns_Id example_env)
     [RR_A \<lparr>Hdr_Name = ''master.skydns.local.'', Rrtype = TypeA, Class = ClassINET,
                 Hdr_Ttl = 3600\<rparr> [10, 0, 0, 1],
      RR_AAAA \<lparr>Hdr_Name = ''master.skydns.local.'', Rrtype = TypeAAAA, Class = ClassINET,
                    Hdr_Ttl = 3600\<rparr> [0x20, 0x01, 0x0d, 0xb8, 0, 0, 0, 0, 0, 0, 0, 0, 0, 0, 0, 1]] =
     [RR_AAAA \<lparr>Hdr_Name = ''master.skydns.local.'', Rrtype = TypeAAAA, Class = ClassINET,
                    Hdr_Ttl = 3600\<rparr> [0x20, 0x01, 0x0d, 0xb8, 0, 0, 0, 0, 0, 0, 0, 0, 0, 0, 0, 1],
      RR_A \<lparr>Hdr_Name = ''master.skydns.local.'', Rrtype = TypeA, Class = ClassINET,
                 Hdr_Ttl = 3600\<rparr> [10, 0, 0, 1]]"
proof -
  have "dns_Id example_env = (\<lambda>k. 0)"
    by (simp add: example_env_def)
  then show ?thesis
    by (simp add: cluster_example roundRobin_def) (simp add: example_server_def)
qed

lemma loopAddressNodes_append:
  "loopAddressNodes e (xs @ ys) q t = loopAddressNodes e xs q t @ loopAddressNodes e ys q t"
  by (induction e xs q t rule: loopAddressNodes.induct) simp_all

text \<open>The directory walk appends the record of a leaf with a matching key whatever
  the value of the leaf is; nothing looks at the result of the conversion.\<close>

lemma loopAddressNodes_leaf:
  "HasSuffix key ''/A'' \<Longrightarrow>
   loopAddressNodes e (before @ Node key val False ttl kids # after) name TypeA =
     loopAddressNodes e before name TypeA @
     RR_A \<lparr>Hdr_Name = name, Rrtype = TypeA, Class = ClassINET, Hdr_Ttl = word_of_int ttl\<rparr>
       (To4 (ParseIP e val)) #
     loopAddressNodes e after name TypeA"
  by (simp add: loopAddressNodes_append)

text \<open>
  C5. The claim says that a leaf whose value cannot be parsed as an address of the
  expected family is left out of the answer set. Lines 315-319 (and 268-272) append
  the record without looking at the result of \<^verbatim>\<open>net.ParseIP(...).To4()\<close>: with the
  directory \<open>/local/skydns/db\<close> holding the leaves \<open>1/A\<close> = \<open>10.0.0.1\<close>
  and \<open>2/A\<close> = \<open>bad\<close>, the A query for \<open>db.skydns.local.\<close> returns two
  A records, the second with a nil address. The query as a whole does not fail.
\<close>

theorem malformed_value_not_omitted:
  "ParseIP example_env ''bad'' = [] \<and>
   AddressRecords (example_env\<lparr>Get := example_store\<rparr>) (example_server\<lparr>RoundRobin := False\<rparr>)
     \<lparr>Name = ''db.skydns.local.'', Qtype = TypeA, Qclass = ClassINET\<rparr> =
   (Inr [RR_A \<lparr>Hdr_Name = ''db.skydns.local.'', Rrtype = TypeA, Class = ClassINET, Hdr_Ttl = 30\<rparr>
           [10, 0, 0, 1],
         RR_A \<lparr>Hdr_Name = ''db.skydns.local.'', Rrtype = TypeA, Class = ClassINET, Hdr_Ttl = 30\<rparr>
           []],
    [Call_Get ''local/skydns/db''])"
proof -
  have path: "questionToPath (example_env\<lparr>Get := example_store\<rparr>) ''db.skydns.local.'' =
      ''local/skydns/db''"
    using db_path by (simp add: questionToPath_def)
  show ?thesis
    by (simp add: AddressRecords_def Let_def path lower_db example_server_def example_store_def
        HasSuffix_def parse_examples To4_IPv4 To4_nil)
qed

section \<open>Forwarding\<close>

lemma Redo_store_calls: "store_calls (Redo e s network req nsid n tried) = []"
proof (induction e s network req nsid n tried rule: Redo.induct)
  case (1 e s network req nsid n tried)
  show ?case
  proof (cases "Exchange e (length tried) network req (nameservers s ! nsid)")
    case (Inr r)
    then show ?thesis
      by (subst Redo.simps) (simp add: Let_def split: list.splits)
  next
    case (Inl err)
    show ?thesis
    proof (cases "n < length (nameservers s)")
      case True
      have "store_calls (Redo e s network req ((nsid + 1) mod length (nameservers s)) (n + 1)
          (tried @ [nameservers s ! nsid])) = []"
        using Inl True by (intro "1.IH") simp_all
      then show ?thesis
        using Inl True by (subst Redo.simps) (simp add: Let_def)
    next
      case False
      then show ?thesis
        using Inl by (subst Redo.simps) (simp add: Let_def)
    qed
  qed
qed

lemma ServeDNSForward_store_calls: "store_calls (ServeDNSForward e s tcp req) = []"
  by (simp add: ServeDNSForward_def Let_def Redo_store_calls)

lemma Redo_all_fail:
  "(\<And>k addr. \<exists>err. Exchange e k network req addr = Inl err) \<Longrightarrow>
   n \<le> length (nameservers s) \<Longrightarrow>
   length (exchanges (Redo e s network req nsid n tried)) =
     length tried + (length (nameservers s) - n) + 1"
proof (induction e s network req nsid n tried rule: Redo.induct)
  case (1 e s network req nsid n tried)
  obtain err where err: "Exchange e (length tried) network req (nameservers s ! nsid) = Inl err"
    using "1.prems"(1) by blast
  show ?case
  proof (cases "n < length (nameservers s)")
    case True
    have "Redo e s network req nsid n tried =
        Redo e s network req ((nsid + 1) mod length (nameservers s)) (n + 1)
          (tried @ [nameservers s ! nsid])"
      using True err by (subst Redo.simps) (simp add: Let_def)
    moreover have "length (exchanges (Redo e s network req ((nsid + 1) mod length (nameservers s))
          (n + 1) (tried @ [nameservers s ! nsid]))) =
        length (tried @ [nameservers s ! nsid]) + (length (nameservers s) - (n + 1)) + 1"
      using True err "1.prems"(1) by (intro "1.IH") simp_all
    ultimately show ?thesis
      using True by simp
  next
    case False
    then show ?thesis
      using err "1.prems"(2) by (subst Redo.simps) (simp add: Let_def)
  qed
qed

lemma forward_all_fail:
  assumes "\<And>k network addr. \<exists>err. Exchange e k network req addr = Inl err"
    and "nameservers s \<noteq> []"
  shows "length (exchanges (ServeDNSForward e s tcp req)) = length (nameservers s) + 1"
  using assms by (simp add: ServeDNSForward_def Let_def Redo_all_fail)

lemma Redo_success:
  assumes "Exchange e (length tried) network req (nameservers s ! nsid) = Inr r"
    and "Questions req \<noteq> []"
  shows "Redo e s network req nsid n tried =
    \<lparr>wrote = [r], store_calls = [], exchanges = tried @ [nameservers s ! nsid],
     panicked = None\<rparr>"
  using assms by (subst Redo.simps) (simp add: Let_def split: list.splits)

lemma forward_example:
  "ServeDNSForward example_env example_server False (example_query 1 ''www.example.org.'' TypeA) =
     \<lparr>wrote = [SetRcode (SetReply new_Msg (example_query 1 ''www.example.org.'' TypeA))
                (example_query 1 ''www.example.org.'' TypeA) RcodeServerFailure],
      store_calls = [],
      exchanges = [''8.8.4.4:53'', ''8.8.8.8:53'', ''8.8.4.4:53''],
      panicked = None\<rparr>"
  by (simp add: ServeDNSForward_def Let_def Redo.simps example_env_def example_server_def
      example_query_def new_Msg_def)

text \<open>
  C2. The claim says that \<open>N\<close> failing nameservers get exactly \<open>N\<close> exchange
  attempts. The retry test \<^verbatim>\<open>try < len(s.nameservers)\<close> is made after the exchange
  and before \<^verbatim>\<open>try\<close> is incremented, so the code makes \<open>N + 1\<close> attempts
  (lemma \<open>forward_all_fail\<close>): with the two nameservers of the example server, none
  of which answers, and the query ID 1 the request goes to the second server, the first,
  and the second again, before the SERVFAIL response is written.
\<close>

theorem forward_exhausted_attempts:
  "length (nameservers example_server) = 2 \<and>
   exchanges (ServeDNSForward example_env example_server False
     (example_query 1 ''www.example.org.'' TypeA)) =
     [''8.8.4.4:53'', ''8.8.8.8:53'', ''8.8.4.4:53''] \<and>
   map Rcode (wrote (ServeDNSForward example_env example_server False
     (example_query 1 ''www.example.org.'' TypeA))) = [RcodeServerFailure]"
  by (simp add: forward_example) (simp add: example_server_def SetRcode_def)

section \<open>The request router\<close>

text \<open>
  The test of line 131 compares bytes: a request whose first question has a lower-cased
  name that does not end with the bytes of the zone is handled by ServeDNSForward,
  with no call to the store. With no nameserver configured, ServeDNSForward writes one
  response with the rcode SERVFAIL, the authoritative bit cleared and the
  recursion-available bit set, without any exchange.
\<close>

lemma not_suffix_forwarded:
  assumes "Questions req = q # qs" and "\<not> HasSuffix (ToLower e (Name q)) (domain s)"
  shows "ServeDNS e s tcp req = ServeDNSForward e s tcp req \<and>
    store_calls (ServeDNS e s tcp req) = [] \<and>
    (nameservers s = [] \<longrightarrow>
      (\<exists>m. ServeDNSForward e s tcp' req' =
              \<lparr>wrote = [m], store_calls = [], exchanges = [], panicked = None\<rparr> \<and>
           Rcode m = RcodeServerFailure \<and> \<not> Authoritative m \<and> RecursionAvailable m))"
proof -
  have forwarded: "ServeDNS e s tcp req = ServeDNSForward e s tcp req"
    using assms by (simp add: ServeDNS_def)
  then have "store_calls (ServeDNS e s tcp req) = []"
    by (simp add: ServeDNSForward_store_calls)
  moreover have "\<exists>m. ServeDNSForward e s tcp' req' =
        \<lparr>wrote = [m], store_calls = [], exchanges = [], panicked = None\<rparr> \<and>
      Rcode m = RcodeServerFailure \<and> \<not> Authoritative m \<and> RecursionAvailable m"
    if "nameservers s = []"
    using that by (simp add: ServeDNSForward_def SetRcode_def)
  ultimately show ?thesis
    using forwarded by blast
qed

lemma SetRcode_sections:
  "Rcode (SetRcode m req rcode) = rcode"
  "Answer (SetRcode m req rcode) = Answer m"
  "Ns (SetRcode m req rcode) = Ns m"
  by (simp_all add: SetRcode_def SetReply_def)

lemma SetReply_sections:
  "Answer (SetReply m req) = Answer m"
  "Ns (SetReply m req) = Ns m"
  by (simp_all add: SetReply_def)

lemma authoritative_store_error:
  assumes "AddressRecords e s q = (Inl (StoreError err), calls)"
    and "Qtype q = TypeA \<or> Qtype q = TypeAAAA" and "name \<noteq> domain s"
  shows "authoritative e s req q name m0 =
      ((SetRcode m0 req RcodeNameError)\<lparr>Ns := [SOA e s]\<rparr>, calls, None)"
  unfolding authoritative_def
  by (simp only: assms if_False if_True simp_thms Let_def prod.case sum.case error.case)

text \<open>
  C4 (amended). For every A or AAAA query for a name inside the zone, other than the
  zone apex and \<open>master.<zone>\<close>, whose store fetch returns an error, the handler
  builds a response with the rcode NXDOMAIN, exactly one record in the authority
  section, the SOA record, and an empty answer section, and hands it to the deferred
  function, which writes it as the one response: nothing panics, and the only store call
  is the fetch. Without DNSSEC key material the response is written as built.
\<close>

theorem absent_name_NXDOMAIN:
  assumes "Questions req = q # qs"
    and "HasSuffix (ToLower e (Name q)) (domain s)"
    and "Qtype q = TypeA \<or> Qtype q = TypeAAAA"
    and "ToLower e (Name q) \<noteq> ''master.'' @ domain s"
    and "ToLower e (Name q) \<noteq> domain s"
    and "Get e (questionToPath e (ToLower e (Name q))) = Inl err"
  shows "\<exists>m. ServeDNS e s tcp req =
        \<lparr>wrote = [deferred e s req m],
         store_calls = [Call_Get (questionToPath e (ToLower e (Name q)))],
         exchanges = [], panicked = None\<rparr> \<and>
      Rcode m = RcodeNameError \<and> Ns m = [SOA e s] \<and> Answer m = [] \<and>
      (PubKey s = None \<longrightarrow> deferred e s req m = m)"
proof -
  have address: "AddressRecords e s q =
      (Inl (StoreError err), [Call_Get (questionToPath e (ToLower e (Name q)))])"
    using assms(4-6) by (simp add: AddressRecords_def Let_def)
  define m0 where "m0 = (SetReply new_Msg req)\<lparr>Authoritative := True, RecursionAvailable := True,
    Answer := []\<rparr>"
  define m where "m = (SetRcode m0 req RcodeNameError)\<lparr>Ns := [SOA e s]\<rparr>"
  have body: "authoritative e s req q (ToLower e (Name q)) m0 =
      (m, [Call_Get (questionToPath e (ToLower e (Name q)))], None)"
    unfolding m_def using address assms(3,5) by (rule authoritative_store_error)
  have served: "ServeDNS e s tcp req =
        \<lparr>wrote = [deferred e s req m],
         store_calls = [Call_Get (questionToPath e (ToLower e (Name q)))],
         exchanges = [], panicked = None\<rparr>"
    using assms(1,2) body by (simp add: ServeDNS_def Let_def m0_def)
  have sections: "Rcode m = RcodeNameError" "Ns m = [SOA e s]" "Answer m = []"
    by (simp_all add: m_def m0_def SetRcode_sections)
  have unsigned: "PubKey s = None \<longrightarrow> deferred e s req m = m"
    by (simp add: deferred_def)
  show ?thesis
  proof (intro exI conjI)
    show "ServeDNS e s tcp req =
        \<lparr>wrote = [deferred e s req m],
         store_calls = [Call_Get (questionToPath e (ToLower e (Name q)))],
         exchanges = [], panicked = None\<rparr>"
      by (rule served)
  qed (rule sections unsigned)+
qed

theorem absent_name_NXDOMAIN_witness:
  "map Rcode (wrote (ServeDNS example_env example_server False
     (example_query 7 ''nothere.skydns.local.'' TypeA))) = [RcodeNameError] \<and>
   map Ns (wrote (ServeDNS example_env example_server False
     (example_query 7 ''nothere.skydns.local.'' TypeA))) = [[SOA example_env example_server]] \<and>
   map Answer (wrote (ServeDNS example_env example_server False
     (example_query 7 ''nothere.skydns.local.'' TypeA))) = [[]] \<and>
   panicked (ServeDNS example_env example_server False
     (example_query 7 ''nothere.skydns.local.'' TypeA)) = None"
proof -
  let ?req = "example_query 7 ''nothere.skydns.local.'' TypeA"
  let ?q = "\<lparr>Name = ''nothere.skydns.local.'', Qtype = TypeA, Qclass = ClassINET\<rparr>"
  have q: "Questions ?req = [?q]"
    by (simp add: example_query_def new_Msg_def)
  have lower: "ToLower example_env (Name ?q) = ''nothere.skydns.local.''"
    by (simp add: example_env_def ascii_ToLower_def)
  have inside: "HasSuffix (ToLower example_env (Name ?q)) (domain example_server)"
    unfolding lower by (simp add: HasSuffix_def example_server_def)
  have other: "ToLower example_env (Name ?q) \<noteq> ''master.'' @ domain example_server"
    "ToLower example_env (Name ?q) \<noteq> domain example_server"
    unfolding lower by (simp_all add: example_server_def)
  have absent: "Get example_env (questionToPath example_env (ToLower example_env (Name ?q))) =
      Inl ''Key not found''"
    by (simp add: example_env_def)
  have key: "PubKey example_server = None"
    by (simp add: example_server_def)
  from absent_name_NXDOMAIN [OF q inside _ other absent, of False] key
  show ?thesis
    by auto
qed

lemma master_path:
  "questionToPath example_env ''master.skydns.local.'' = ''local/skydns/master''"
  by (simp add: questionToPath_def reverseLoop_rev example_env_def dot_SplitDomainName_def)

lemma lower_master: "ToLower example_env ''master.skydns.local.'' = ''master.skydns.local.''"
  by (simp add: example_env_def ascii_ToLower_def)

text \<open>
  C4 as stated fails for the zone apex and \<open>master.<zone>\<close>, which are answered
  from the cluster members without a store fetch for the address records: with an empty
  store, the A query for \<open>master.skydns.local.\<close> gets a response with the rcode
  NOERROR, two answers and no SOA record.
\<close>

theorem cluster_name_not_NXDOMAIN:
  "Get example_env (questionToPath example_env (ToLower example_env ''master.skydns.local.'')) =
     Inl ''Key not found'' \<and>
   map Rcode (wrote (ServeDNS example_env example_server False
     (example_query 7 ''master.skydns.local.'' TypeA))) = [RcodeSuccess] \<and>
   map Answer (wrote (ServeDNS example_env example_server False
     (example_query 7 ''master.skydns.local.'' TypeA))) =
     [[RR_A \<lparr>Hdr_Name = ''master.skydns.local.'', Rrtype = TypeA, Class = ClassINET,
                 Hdr_Ttl = 3600\<rparr> [10, 0, 0, 1],
       RR_AAAA \<lparr>Hdr_Name = ''master.skydns.local.'', Rrtype = TypeAAAA, Class = ClassINET,
                    Hdr_Ttl = 3600\<rparr> [0x20, 0x01, 0x0d, 0xb8, 0, 0, 0, 0, 0, 0, 0, 0, 0, 0, 0, 1]]] \<and>
   map Ns (wrote (ServeDNS example_env example_server False
     (example_query 7 ''master.skydns.local.'' TypeA))) = [[]]"
proof -
  let ?req = "example_query 7 ''master.skydns.local.'' TypeA"
  let ?q = "\<lparr>Name = ''master.skydns.local.'', Qtype = TypeA, Qclass = ClassINET\<rparr>"
  let ?answers = "[RR_A \<lparr>Hdr_Name = ''master.skydns.local.'', Rrtype = TypeA, Class = ClassINET,
                 Hdr_Ttl = 3600\<rparr> [10, 0, 0, 1],
       RR_AAAA \<lparr>Hdr_Name = ''master.skydns.local.'', Rrtype = TypeAAAA, Class = ClassINET,
                    Hdr_Ttl = 3600\<rparr> [0x20, 0x01, 0x0d, 0xb8, 0, 0, 0, 0, 0, 0, 0, 0, 0, 0, 0, 1]]"
  define m0 where "m0 = (SetReply new_Msg ?req)\<lparr>Authoritative := True,
    RecursionAvailable := True, Answer := []\<rparr>"
  have types: "TypeA \<noteq> TypeDNSKEY" "TypeA \<noteq> TypeSOA" "TypeA \<noteq> TypeANY" "TypeA \<noteq> TypeSRV"
    by (simp_all add: TypeA_def TypeDNSKEY_def TypeSOA_def TypeANY_def TypeSRV_def)
  have empty: "Answer m0 = []"
    by (simp add: m0_def)
  have absent: "Get example_env ''local/skydns/master'' = Inl ''Key not found''"
    by (simp add: example_env_def)
  have srv: "SRVRecords example_env ?q =
      (([], [], Some ''Key not found''), [Call_Get ''local/skydns/master''])"
    by (simp add: SRVRecords_def lower_master master_path absent)
  have service: "serviceRecords example_env example_server ?req ?q (m0\<lparr>Answer := Answer m0 @ ?answers\<rparr>) =
      (m0\<lparr>Answer := ?answers\<rparr>, [Call_Get ''local/skydns/master''])"
    by (simp add: serviceRecords_def srv types empty)
  have body: "authoritative example_env example_server ?req ?q ''master.skydns.local.'' m0 =
      (m0\<lparr>Answer := ?answers\<rparr>, [Call_GetCluster, Call_Get ''local/skydns/master''], None)"
    unfolding authoritative_def
    by (simp add: cluster_example service types)
  have inside: "HasSuffix ''master.skydns.local.'' (domain example_server)"
    by (simp add: HasSuffix_def example_server_def)
  have q: "Questions ?req = [?q]"
    by (simp add: example_query_def new_Msg_def)
  have served: "ServeDNS example_env example_server False ?req =
      \<lparr>wrote = [m0\<lparr>Answer := ?answers\<rparr>],
       store_calls = [Call_GetCluster, Call_Get ''local/skydns/master''],
       exchanges = [], panicked = None\<rparr>"
    unfolding ServeDNS_def q
    by (simp add: lower_master inside body [unfolded m0_def] deferred_def Let_def)
      (simp add: example_server_def m0_def)
  show ?thesis
    unfolding served
    by (simp add: lower_master master_path absent m0_def SetReply_def new_Msg_def RcodeSuccess_def)
qed

lemma foo_path:
  "questionToPath example_env ''fooskydns.local.'' = ''local/fooskydns''"
  by (simp add: questionToPath_def reverseLoop_rev example_env_def dot_SplitDomainName_def)

lemma lower_foo: "ToLower example_env ''fooskydns.local.'' = ''fooskydns.local.''"
  by (simp add: example_env_def ascii_ToLower_def)

text \<open>
  C3. The claim says that every request for a name outside the zone is forwarded
  without a call to the store. Line 131 tests whether the name ends with the bytes of
  the zone, not whether it ends with the zone at a label boundary: the name
  \<open>fooskydns.local.\<close> is neither the zone \<open>skydns.local.\<close> nor a name below
  it, yet it is not forwarded; the handler fetches \<open>local/fooskydns\<close> from the
  store and writes an authoritative NXDOMAIN response. For the names that fail the
  byte test the claim holds (lemma \<open>not_suffix_forwarded\<close>).
\<close>

theorem byte_suffix_not_forwarded:
  "ToLower example_env ''fooskydns.local.'' \<noteq> domain example_server \<and>
   \<not> HasSuffix (ToLower example_env ''fooskydns.local.'') (''.'' @ domain example_server) \<and>
   store_calls (ServeDNS example_env example_server False
     (example_query 7 ''fooskydns.local.'' TypeA)) = [Call_Get ''local/fooskydns''] \<and>
   exchanges (ServeDNS example_env example_server False
     (example_query 7 ''fooskydns.local.'' TypeA)) = [] \<and>
   map Rcode (wrote (ServeDNS example_env example_server False
     (example_query 7 ''fooskydns.local.'' TypeA))) = [RcodeNameError] \<and>
   map Authoritative (wrote (ServeDNS example_env example_server False
     (example_query 7 ''fooskydns.local.'' TypeA))) = [True]"
proof -
  let ?req = "example_query 7 ''fooskydns.local.'' TypeA"
  let ?q = "\<lparr>Name = ''fooskydns.local.'', Qtype = TypeA, Qclass = ClassINET\<rparr>"
  define m0 where "m0 = (SetReply new_Msg ?req)\<lparr>Authoritative := True,
    RecursionAvailable := True, Answer := []\<rparr>"
  have outside: "ToLower example_env ''fooskydns.local.'' \<noteq> domain example_server"
    "\<not> HasSuffix (ToLower example_env ''fooskydns.local.'') (''.'' @ domain example_server)"
    unfolding lower_foo by (simp_all add: HasSuffix_def example_server_def)
  have bytes: "HasSuffix ''fooskydns.local.'' (domain example_server)"
    by (simp add: HasSuffix_def example_server_def)
  have absent: "Get example_env ''local/fooskydns'' = Inl ''Key not found''"
    by (simp add: example_env_def)
  have address: "AddressRecords example_env example_server ?q =
      (Inl (StoreError ''Key not found''), [Call_Get ''local/fooskydns''])"
    by (simp add: AddressRecords_def Let_def lower_foo foo_path absent) (simp add: example_server_def)
  have body: "authoritative example_env example_server ?req ?q ''fooskydns.local.'' m0 =
      ((SetRcode m0 ?req RcodeNameError)\<lparr>Ns := [SOA example_env example_server]\<rparr>,
       [Call_Get ''local/fooskydns''], None)"
    using address by (rule authoritative_store_error) (simp_all add: example_server_def)
  have q: "Questions ?req = [?q]"
    by (simp add: example_query_def new_Msg_def)
  have served: "ServeDNS example_env example_server False ?req =
      \<lparr>wrote = [(SetRcode m0 ?req RcodeNameError)\<lparr>Ns := [SOA example_env example_server]\<rparr>],
       store_calls = [Call_Get ''local/fooskydns''], exchanges = [], panicked = None\<rparr>"
    unfolding ServeDNS_def q
    by (simp add: lower_foo bytes body [unfolded m0_def] deferred_def Let_def)
      (simp add: example_server_def m0_def)
  show ?thesis
    unfolding served using outside
    by (simp add: SetRcode_sections) (simp add: m0_def SetRcode_def SetReply_def)
qed

end
